theory Spec2Isabelle
  imports
    Main
    "HOL-Library.Word"
    "HOL-Library.List_Lexorder"
    "HOL-Library.Product_Lexorder"
begin

unbundle bit_operations_syntax

section \<open>Data model of the channel state machine (lnwallet/channel.go)\<close>

text \<open>
  Go's fixed-width integers are words: \<open>uint32\<close> log indices, \<open>uint64\<close> commitment
  heights, and \<open>btcutil.Amount\<close> (an \<open>int64\<close>), which is read with \<open>sint\<close> wherever the
  source compares amounts.  Byte slices and byte arrays are lists of 8-bit words.
\<close>

type_synonym bytes = "8 word list"
type_synonym Amount = "64 word"
type_synonym PublicKey = bytes
type_synonym PrivateKey = bytes

text \<open>Errors raised by libraries outside the package carry an opaque description.\<close>

type_synonym lib_error = string

text \<open>
  The package's own error values: \<open>ErrChanClosing\<close>, \<open>ErrNoWindow\<close> (channel.go),
  \<open>ErrInsufficientFunds\<close> (wallet.go) and the \<open>fmt.Errorf\<close> values of the state
  machine; \<open>ErrLib\<close> wraps an error handed up from a library call.
\<close>

datatype error =
    ErrChanClosing
  | ErrNoWindow
  | ErrInsufficientFunds
  | ErrRevocationKeyMismatch
  | ErrRevocationHashMismatch
  | ErrInvalidPaymentHash
  | ErrNonExistantLogEntry
  | ErrInvalidCommitSig
  | ErrLib lib_error

datatype channelState =
    channelPending
  | channelOpen
  | channelClosing
  | channelClosed
  | channelDispute
  | channelPendingPayment

datatype updateType = Add | Timeout | Settle

record PaymentDescriptor =
  RHash :: bytes
  Timeout_blocks :: "32 word"
  Amount :: Amount
  Index :: "32 word"
  ParentIndex :: "32 word"
  Payload :: bytes
  EntryType :: updateType
  addCommitHeightRemote :: "64 word"
  addCommitHeightLocal :: "64 word"
  removeCommitHeightRemote :: "64 word"
  removeCommitHeightLocal :: "64 word"
  isForwarded :: bool
  settled :: bool

subsection \<open>Transactions (wire.MsgTx)\<close>

record OutPoint =
  Hash :: bytes
  OutIndex :: "32 word"

record TxIn =
  PreviousOutPoint :: OutPoint
  SignatureScript :: bytes
  Witness :: "bytes list"
  Sequence :: "32 word"

record TxOut =
  Value :: "64 word"
  PkScript :: bytes

record MsgTx =
  Version :: "32 word"
  TxIns :: "TxIn list"
  TxOuts :: "TxOut list"
  LockTime :: "32 word"

text \<open>\<open>wire.NewMsgTx()\<close>: version \<open>wire.TxVersion = 1\<close>, no inputs, no outputs.\<close>

definition NewMsgTx :: MsgTx where
  "NewMsgTx = \<lparr>Version = 1, TxIns = [], TxOuts = [], LockTime = 0\<rparr>"

definition AddTxIn :: "TxIn \<Rightarrow> MsgTx \<Rightarrow> MsgTx" where
  "AddTxIn ti tx = tx\<lparr>TxIns := TxIns tx @ [ti]\<rparr>"

definition AddTxOut :: "TxOut \<Rightarrow> MsgTx \<Rightarrow> MsgTx" where
  "AddTxOut to tx = tx\<lparr>TxOuts := TxOuts tx @ [to]\<rparr>"

definition NewTxOut :: "64 word \<Rightarrow> bytes \<Rightarrow> TxOut" where
  "NewTxOut v s = \<lparr>Value = v, PkScript = s\<rparr>"

definition NewTxIn :: "OutPoint \<Rightarrow> TxIn" where
  "NewTxIn op = \<lparr>PreviousOutPoint = op, SignatureScript = [], Witness = [],
     Sequence = 0xffffffff\<rparr>"

text \<open>
  \<open>txsort.InPlaceSort\<close> (library btcutil/txsort, BIP 69): inputs ascending by
  previous transaction hash, compared in reversed byte order, then by output index;
  outputs ascending by value (a signed comparison of \<open>int64\<close>), then by script bytes
  in lexicographic order.
\<close>

definition txInKey :: "TxIn \<Rightarrow> bytes \<times> 32 word" where
  "txInKey ti = (rev (Hash (PreviousOutPoint ti)), OutIndex (PreviousOutPoint ti))"

definition txOutKey :: "TxOut \<Rightarrow> int \<times> bytes" where
  "txOutKey to = (sint (Value to), PkScript to)"

definition InPlaceSort :: "MsgTx \<Rightarrow> MsgTx" where
  "InPlaceSort tx =
     tx\<lparr>TxIns := sort_key txInKey (TxIns tx), TxOuts := sort_key txOutKey (TxOuts tx)\<rparr>"

subsection \<open>Colored-coin encoding (lnwallet/colored.go)\<close>

record CcInstruction =
  Skip :: bool
  Range :: bool
  Percent :: bool
  Output :: "32 word"
  CcAmount :: "64 word"

definition dustAmount :: "64 word" where
  "dustAmount = 546"

definition OP_RETURN :: "8 word" where
  "OP_RETURN = 0x6a"

text \<open>\<open>wire.WriteVarInt\<close> and \<open>wire.WriteVarBytes\<close>: Bitcoin's variable-length integer
  (little endian), followed by the bytes.\<close>

fun leBytes :: "nat \<Rightarrow> nat \<Rightarrow> bytes" where
  "leBytes 0 v = []"
| "leBytes (Suc k) v = of_nat (v mod 256) # leBytes k (v div 256)"

definition WriteVarInt :: "nat \<Rightarrow> bytes" where
  "WriteVarInt v =
     (if v < 0xfd then [of_nat v]
      else if v \<le> 0xffff then 0xfd # leBytes 2 v
      else if v \<le> 0xffffffff then 0xfe # leBytes 4 v
      else 0xff # leBytes 8 v)"

definition WriteVarBytes :: "bytes \<Rightarrow> bytes" where
  "WriteVarBytes bs = WriteVarInt (length bs) @ bs"

text \<open>
  The loop of \<open>ColorifyTx\<close> over \<open>tx.TxOut\<close>: the output at position \<open>i\<close> yields the
  instruction \<open>{Output: uint32(i), Amount: int(txOut.Value)}\<close> and an output with the
  same script whose value is \<open>dustAmount * 15\<close> for a funding transaction and
  \<open>dustAmount\<close> otherwise.
\<close>

fun colorifyOuts :: "bool \<Rightarrow> nat \<Rightarrow> TxOut list \<Rightarrow> CcInstruction list \<times> TxOut list" where
  "colorifyOuts isFunding i [] = ([], [])"
| "colorifyOuts isFunding i (txOut # rest) =
     (let inst = \<lparr>Skip = False, Range = False, Percent = False,
                   Output = of_nat i, CcAmount = Value txOut\<rparr>;
          out = (if isFunding then NewTxOut (dustAmount * 15) (PkScript txOut)
                 else NewTxOut dustAmount (PkScript txOut));
          (insts, outs) = colorifyOuts isFunding (Suc i) rest
      in (inst # insts, out # outs))"

text \<open>
  \<open>ColorifyTx\<close>.  The encoder \<open>EncodeCcInstructions\<close> posts the instructions to an
  external service; it is the parameter \<open>encode\<close>.  Writing to a \<open>bytes.Buffer\<close>
  does not fail.
\<close>

definition ColorifyTx ::
  "(CcInstruction list \<Rightarrow> lib_error + bytes) \<Rightarrow> MsgTx \<Rightarrow> bool \<Rightarrow> lib_error + MsgTx" where
  "ColorifyTx encode tx isFunding =
     (let newTx = NewMsgTx\<lparr>Version := Version tx\<rparr>;
          newTx = fold AddTxIn (TxIns tx) newTx;
          (insts, outs) = colorifyOuts isFunding 0 (TxOuts tx);
          newTx = fold AddTxOut outs newTx
      in case encode insts of
           Inl e \<Rightarrow> Inl e
         | Inr opReturn \<Rightarrow>
             Inr (AddTxOut (NewTxOut 0 (OP_RETURN # WriteVarBytes opReturn)) newTx))"

subsection \<open>Evaluating one log entry (processAddEntry, processRemoveEntry)\<close>

text \<open>
  Both functions receive the entry and the two balances by pointer; the model returns
  the three updated values.
\<close>

definition processAddEntry ::
  "PaymentDescriptor \<Rightarrow> Amount \<Rightarrow> Amount \<Rightarrow> 64 word \<Rightarrow> bool \<Rightarrow> bool
     \<Rightarrow> PaymentDescriptor \<times> Amount \<times> Amount" where
  "processAddEntry htlc ourBalance theirBalance nextHeight remoteChain isIncoming =
     (let addHeight = (if remoteChain then addCommitHeightRemote htlc
                       else addCommitHeightLocal htlc)
      in if addHeight \<noteq> 0 then (htlc, ourBalance, theirBalance)
         else
           (let (ourBalance', theirBalance') =
                  (if isIncoming then (ourBalance, theirBalance - Amount htlc)
                   else (ourBalance - Amount htlc, theirBalance));
                htlc' = (if remoteChain then htlc\<lparr>addCommitHeightRemote := nextHeight\<rparr>
                         else htlc\<lparr>addCommitHeightLocal := nextHeight\<rparr>)
            in (htlc', ourBalance', theirBalance')))"

definition processRemoveEntry ::
  "PaymentDescriptor \<Rightarrow> Amount \<Rightarrow> Amount \<Rightarrow> 64 word \<Rightarrow> bool \<Rightarrow> bool
     \<Rightarrow> PaymentDescriptor \<times> Amount \<times> Amount" where
  "processRemoveEntry htlc ourBalance theirBalance nextHeight remoteChain isIncoming =
     (let removeHeight = (if remoteChain then removeCommitHeightRemote htlc
                          else removeCommitHeightLocal htlc)
      in if removeHeight \<noteq> 0 then (htlc, ourBalance, theirBalance)
         else
           (let (ourBalance', theirBalance') =
                  (if isIncoming \<and> EntryType htlc = Settle
                     then (ourBalance + Amount htlc, theirBalance)
                   else if isIncoming \<and> EntryType htlc = Timeout
                     then (ourBalance, theirBalance + Amount htlc)
                   else if \<not> isIncoming \<and> EntryType htlc = Settle
                     then (ourBalance, theirBalance + Amount htlc)
                   else if \<not> isIncoming \<and> EntryType htlc = Timeout
                     then (ourBalance + Amount htlc, theirBalance)
                   else (ourBalance, theirBalance));
                htlc' = (if remoteChain then htlc\<lparr>removeCommitHeightRemote := nextHeight\<rparr>
                         else htlc\<lparr>removeCommitHeightLocal := nextHeight\<rparr>)
            in (htlc', ourBalance', theirBalance')))"

subsection \<open>Channel state\<close>

record commitment =
  height :: "64 word"
  ourMessageIndex :: "32 word"
  theirMessageIndex :: "32 word"
  txn :: "MsgTx option"
  sig :: bytes
  ourBalance :: Amount
  theirBalance :: Amount

record commitmentChain =
  commitments :: "commitment list"
  startingHeight :: "64 word"

definition newCommitmentChain :: "64 word \<Rightarrow> commitmentChain" where
  "newCommitmentChain initialHeight = \<lparr>commitments = [], startingHeight = initialHeight\<rparr>"

definition addCommitment :: "commitment \<Rightarrow> commitmentChain \<Rightarrow> commitmentChain" where
  "addCommitment c s = s\<lparr>commitments := commitments s @ [c]\<rparr>"

text \<open>
  \<open>advanceTail\<close>, \<open>tip\<close> and \<open>tail\<close> dereference \<open>Front()\<close> or \<open>Back()\<close> of the list,
  which is \<open>nil\<close> for an empty chain: the call panics, the model returns \<open>None\<close>.
\<close>

definition advanceTail :: "commitmentChain \<Rightarrow> commitmentChain option" where
  "advanceTail s =
     (case commitments s of [] \<Rightarrow> None | c # cs \<Rightarrow> Some (s\<lparr>commitments := cs\<rparr>))"

definition tip :: "commitmentChain \<Rightarrow> commitment option" where
  "tip s = (case commitments s of [] \<Rightarrow> None | c # cs \<Rightarrow> Some (last (c # cs)))"

definition tail :: "commitmentChain \<Rightarrow> commitment option" where
  "tail s = (case commitments s of [] \<Rightarrow> None | c # cs \<Rightarrow> Some c)"

text \<open>\<open>lnwire.CommitRevocation\<close> and \<open>lnwire.HTLCAddRequest\<close>, the fields the channel reads.\<close>

record CommitRevocation =
  ChannelPoint :: OutPoint
  Revocation :: bytes
  NextRevocationKey :: PublicKey
  NextRevocationHash :: bytes

record HTLCAddRequest =
  RedemptionHashes :: "bytes list"
  Expiry :: "32 word"
  ReqAmount :: "64 word"

text \<open>
  \<open>channeldb.OpenChannel\<close>, the fields the channel reads and writes.  The elkrem
  sender is its root; the elkrem receiver is the record of the pre-images it has
  accepted.
\<close>

type_synonym ElkremSender = bytes
type_synonym ElkremReceiver = "bytes list"

record OpenChannel =
  ChanID :: OutPoint
  Capacity :: Amount
  OurBalance :: Amount
  TheirBalance :: Amount
  OurCommitTx :: "MsgTx option"
  OurCommitSig :: bytes
  OurCommitKey :: PrivateKey
  TheirCommitKey :: PublicKey
  OurMultiSigKey :: PrivateKey
  TheirMultiSigKey :: PublicKey
  FundingOutpoint :: OutPoint
  FundingRedeemScript :: bytes
  LocalElkrem :: ElkremSender
  RemoteElkrem :: ElkremReceiver
  TheirCurrentRevocation :: PublicKey
  TheirCurrentRevocationHash :: bytes
  LocalCsvDelay :: "32 word"
  RemoteCsvDelay :: "32 word"
  OurDeliveryScript :: bytes
  TheirDeliveryScript :: bytes
  NumUpdates :: "64 word"

text \<open>
  The update logs are linked lists of pointers to payment descriptors, and the index
  maps point at list elements.  The model keeps the descriptors in a store
  (\<open>descriptors\<close>, from addresses to values); a log is the list of the addresses of
  its elements in order, an index map sends a log index to an address, and
  \<open>nextAddr\<close> is the next address the allocator hands out.
\<close>

type_synonym addr = nat

record LightningChannel =
  ourLogCounter :: "32 word"
  theirLogCounter :: "32 word"
  status :: channelState
  currentHeight :: "64 word"
  revocationWindowEdge :: "64 word"
  usedRevocations :: "CommitRevocation list"
  revocationWindow :: "CommitRevocation list"
  remoteCommitChain :: commitmentChain
  localCommitChain :: commitmentChain
  channelState :: OpenChannel
  ourUpdateLog :: "addr list"
  theirUpdateLog :: "addr list"
  ourLogIndex :: "32 word \<rightharpoonup> addr"
  theirLogIndex :: "32 word \<rightharpoonup> addr"
  fundingTxIn :: TxIn
  fundingP2WSH :: bytes
  descriptors :: "addr \<Rightarrow> PaymentDescriptor"
  nextAddr :: addr

subsection \<open>External collaborators\<close>

text \<open>
  Hashing, the script helpers of script\_utils.go, signing and verification
  (txscript, btcec), the elkrem tree, the colored-coin encoder and the persistence
  calls of channeldb are parameters of the model.  A library call that can fail
  returns \<open>lib_error + 'a\<close>; a persistence call returns the error, if any.
\<close>

record env =
  sha256 :: "bytes \<Rightarrow> bytes"
  commitScriptToSelf :: "32 word \<Rightarrow> PublicKey \<Rightarrow> PublicKey \<Rightarrow> lib_error + bytes"
  commitScriptUnencumbered :: "PublicKey \<Rightarrow> lib_error + bytes"
  witnessScriptHash :: "bytes \<Rightarrow> lib_error + bytes"
  senderHTLCScript ::
    "32 word \<Rightarrow> 32 word \<Rightarrow> PublicKey \<Rightarrow> PublicKey \<Rightarrow> bytes \<Rightarrow> bytes \<Rightarrow> lib_error + bytes"
  receiverHTLCScript ::
    "32 word \<Rightarrow> 32 word \<Rightarrow> PublicKey \<Rightarrow> PublicKey \<Rightarrow> bytes \<Rightarrow> bytes \<Rightarrow> lib_error + bytes"
  encodeCcInstructions :: "CcInstruction list \<Rightarrow> lib_error + bytes"
  rawTxInWitnessSignature :: "MsgTx \<Rightarrow> 64 word \<Rightarrow> bytes \<Rightarrow> PrivateKey \<Rightarrow> lib_error + bytes"
  calcWitnessSigHash :: "bytes \<Rightarrow> MsgTx \<Rightarrow> 64 word \<Rightarrow> lib_error + bytes"
  parseSignature :: "bytes \<Rightarrow> lib_error + bytes"
  verifySignature :: "bytes \<Rightarrow> bytes \<Rightarrow> PublicKey \<Rightarrow> bool"
  txSha :: "MsgTx \<Rightarrow> bytes"
  pubKeyOf :: "PrivateKey \<Rightarrow> PublicKey"
  deriveRevocationPubkey :: "PublicKey \<Rightarrow> bytes \<Rightarrow> PublicKey"
  deriveRevocationPrivKey :: "PrivateKey \<Rightarrow> bytes \<Rightarrow> PrivateKey"
  elkremAtIndex :: "ElkremSender \<Rightarrow> 64 word \<Rightarrow> lib_error + bytes"
  elkremAddNext :: "ElkremReceiver \<Rightarrow> bytes \<Rightarrow> lib_error + ElkremReceiver"
  fullSync :: "OpenChannel \<Rightarrow> lib_error option"
  syncRevocation :: "OpenChannel \<Rightarrow> lib_error option"

definition zeroHash :: bytes where
  "zeroHash = replicate 32 0"

subsection \<open>Building a commitment view\<close>

type_synonym htlcView = "addr list \<times> addr list"

definition ourUpdates :: "htlcView \<Rightarrow> addr list" where
  "ourUpdates v = fst v"

definition theirUpdates :: "htlcView \<Rightarrow> addr list" where
  "theirUpdates v = snd v"

text \<open>\<open>fetchHTLCView\<close>: the entries of each log whose index is below the given one.\<close>

definition fetchHTLCView :: "LightningChannel \<Rightarrow> 32 word \<Rightarrow> 32 word \<Rightarrow> htlcView" where
  "fetchHTLCView lc theirLogIdx ourLogIdx =
     (filter (\<lambda>a. Index (descriptors lc a) < ourLogIdx) (ourUpdateLog lc),
      filter (\<lambda>a. Index (descriptors lc a) < theirLogIdx) (theirUpdateLog lc))"

text \<open>
  First pass of \<open>evaluateHTLCView\<close> over one side of the view.  \<open>idx\<close> is the index map
  of the other log; a parent index that is not in it gives a \<open>nil\<close> element, whose
  dereference panics.  The state is the store, both balances and the skip set.
\<close>

fun evalRemoves ::
  "(32 word \<rightharpoonup> addr) \<Rightarrow> 64 word \<Rightarrow> bool \<Rightarrow> bool \<Rightarrow> addr list
     \<Rightarrow> (addr \<Rightarrow> PaymentDescriptor) \<times> Amount \<times> Amount \<times> 32 word list
     \<Rightarrow> ((addr \<Rightarrow> PaymentDescriptor) \<times> Amount \<times> Amount \<times> 32 word list) option" where
  "evalRemoves idx nextHeight remoteChain isIncoming [] st = Some st"
| "evalRemoves idx nextHeight remoteChain isIncoming (entry # rest) (h, ob, tb, skip) =
     (if EntryType (h entry) = Add
        then evalRemoves idx nextHeight remoteChain isIncoming rest (h, ob, tb, skip)
      else
        (case idx (ParentIndex (h entry)) of
           None \<Rightarrow> None
         | Some parent \<Rightarrow>
             (let skip' = Index (h parent) # skip;
                  (pd, ob', tb') =
                     processRemoveEntry (h entry) ob tb nextHeight remoteChain isIncoming
              in evalRemoves idx nextHeight remoteChain isIncoming rest
                   (h(entry := pd), ob', tb', skip'))))"

text \<open>Second pass: the state is the store, both balances and the new view of this side.\<close>

fun evalAdds ::
  "32 word list \<Rightarrow> 64 word \<Rightarrow> bool \<Rightarrow> bool \<Rightarrow> addr list
     \<Rightarrow> (addr \<Rightarrow> PaymentDescriptor) \<times> Amount \<times> Amount \<times> addr list
     \<Rightarrow> (addr \<Rightarrow> PaymentDescriptor) \<times> Amount \<times> Amount \<times> addr list" where
  "evalAdds skip nextHeight remoteChain isIncoming [] st = st"
| "evalAdds skip nextHeight remoteChain isIncoming (entry # rest) (h, ob, tb, new) =
     (if EntryType (h entry) \<noteq> Add \<or> Index (h entry) \<in> set skip
        then evalAdds skip nextHeight remoteChain isIncoming rest (h, ob, tb, new)
      else
        (let (pd, ob', tb') =
                processAddEntry (h entry) ob tb nextHeight remoteChain isIncoming
         in evalAdds skip nextHeight remoteChain isIncoming rest
              (h(entry := pd), ob', tb', new @ [entry])))"

text \<open>
  \<open>evaluateHTLCView\<close> returns the filtered view; the balances, passed by pointer, and
  the entries, mutated in place, come back as the two amounts and the new channel.
\<close>

definition evaluateHTLCView ::
  "LightningChannel \<Rightarrow> htlcView \<Rightarrow> Amount \<Rightarrow> Amount \<Rightarrow> 64 word \<Rightarrow> bool
     \<Rightarrow> (htlcView \<times> Amount \<times> Amount \<times> LightningChannel) option" where
  "evaluateHTLCView lc view ob tb nextHeight remoteChain =
     (case evalRemoves (theirLogIndex lc) nextHeight remoteChain True (ourUpdates view)
             (descriptors lc, ob, tb, []) of
        None \<Rightarrow> None
      | Some (h1, ob1, tb1, skipThem) \<Rightarrow>
     (case evalRemoves (ourLogIndex lc) nextHeight remoteChain False (theirUpdates view)
             (h1, ob1, tb1, []) of
        None \<Rightarrow> None
      | Some (h2, ob2, tb2, skipUs) \<Rightarrow>
          (let (h3, ob3, tb3, newOurs) =
                 evalAdds skipUs nextHeight remoteChain False (ourUpdates view)
                   (h2, ob2, tb2, []);
               (h4, ob4, tb4, newTheirs) =
                 evalAdds skipThem nextHeight remoteChain True (theirUpdates view)
                   (h3, ob3, tb3, [])
           in Some ((newOurs, newTheirs), ob4, tb4, lc\<lparr>descriptors := h4\<rparr>))))"

definition createCommitTx ::
  "env \<Rightarrow> TxIn \<Rightarrow> PublicKey \<Rightarrow> PublicKey \<Rightarrow> PublicKey \<Rightarrow> 32 word \<Rightarrow> Amount \<Rightarrow> Amount
     \<Rightarrow> lib_error + MsgTx" where
  "createCommitTx e fundingOutput selfKey theirKey revokeKey csvTimeout amountToSelf
       amountToThem =
     (case commitScriptToSelf e csvTimeout selfKey revokeKey of
        Inl err \<Rightarrow> Inl err
      | Inr ourRedeemScript \<Rightarrow>
     (case witnessScriptHash e ourRedeemScript of
        Inl err \<Rightarrow> Inl err
      | Inr payToUsScriptHash \<Rightarrow>
     (case commitScriptUnencumbered e theirKey of
        Inl err \<Rightarrow> Inl err
      | Inr theirWitnessKeyHash \<Rightarrow>
          (let commitTx = NewMsgTx\<lparr>Version := 2\<rparr>;
               commitTx = AddTxIn fundingOutput commitTx;
               commitTx = (if amountToSelf \<noteq> 0
                             then AddTxOut (NewTxOut amountToSelf payToUsScriptHash) commitTx
                           else commitTx);
               commitTx = (if amountToThem \<noteq> 0
                             then AddTxOut (NewTxOut amountToThem theirWitnessKeyHash) commitTx
                           else commitTx)
           in Inr commitTx))))"

definition addHTLC ::
  "env \<Rightarrow> LightningChannel \<Rightarrow> MsgTx \<Rightarrow> bool \<Rightarrow> PaymentDescriptor \<Rightarrow> bytes \<Rightarrow> 32 word
     \<Rightarrow> bool \<Rightarrow> lib_error + MsgTx" where
  "addHTLC e lc commitTx ourCommit paymentDesc revocation delay isIncoming =
     (let localKey = pubKeyOf e (OurCommitKey (channelState lc));
          remoteKey = TheirCommitKey (channelState lc);
          timeout = Timeout_blocks paymentDesc;
          rHash = RHash paymentDesc;
          pkScript =
            (if isIncoming \<and> ourCommit
               then receiverHTLCScript e timeout delay remoteKey localKey revocation rHash
             else if isIncoming \<and> \<not> ourCommit
               then senderHTLCScript e timeout delay remoteKey localKey revocation rHash
             else if \<not> isIncoming \<and> ourCommit
               then senderHTLCScript e timeout delay localKey remoteKey revocation rHash
             else receiverHTLCScript e timeout delay localKey remoteKey revocation rHash)
      in case pkScript of
           Inl err \<Rightarrow> Inl err
         | Inr script \<Rightarrow>
             (case witnessScriptHash e script of
                Inl err \<Rightarrow> Inl err
              | Inr htlcP2WSH \<Rightarrow>
                  Inr (AddTxOut (NewTxOut (Amount paymentDesc) htlcP2WSH) commitTx)))"

fun addHTLCs ::
  "env \<Rightarrow> LightningChannel \<Rightarrow> bool \<Rightarrow> bytes \<Rightarrow> 32 word \<Rightarrow> bool \<Rightarrow> addr list \<Rightarrow> MsgTx
     \<Rightarrow> lib_error + MsgTx" where
  "addHTLCs e lc ourCommit revocation delay isIncoming [] commitTx = Inr commitTx"
| "addHTLCs e lc ourCommit revocation delay isIncoming (a # rest) commitTx =
     (case addHTLC e lc commitTx ourCommit (descriptors lc a) revocation delay isIncoming of
        Inl err \<Rightarrow> Inl err
      | Inr commitTx' \<Rightarrow> addHTLCs e lc ourCommit revocation delay isIncoming rest commitTx')"

text \<open>
  \<open>fetchCommitmentView\<close>.  \<open>commitChain.tip()\<close> panics on an empty chain, so the branch
  that would seed the balances from the channel state is never taken.  The result is
  \<open>None\<close> for a panic, and otherwise the error or the commitment together with the
  channel, whose log entries the evaluation has mutated.
\<close>

definition fetchCommitmentView ::
  "env \<Rightarrow> LightningChannel \<Rightarrow> bool \<Rightarrow> 32 word \<Rightarrow> 32 word \<Rightarrow> PublicKey \<Rightarrow> bytes
     \<Rightarrow> ((error + commitment) \<times> LightningChannel) option" where
  "fetchCommitmentView e lc remoteChain ourLogIdx theirLogIdx revocationKey revocationHash =
     (let commitChain = (if remoteChain then remoteCommitChain lc else localCommitChain lc)
      in case tip commitChain of
           None \<Rightarrow> None
         | Some t \<Rightarrow>
     (let nextHeight = height t + 1;
          view = fetchHTLCView lc theirLogIdx ourLogIdx
      in case evaluateHTLCView lc view (ourBalance t) (theirBalance t) nextHeight remoteChain of
           None \<Rightarrow> None
         | Some (filteredHTLCView, ob, tb, lc') \<Rightarrow>
     (let cs = channelState lc';
          (selfKey, remoteKey, delay, delayBalance, p2wkhBalance) =
            (if remoteChain
               then (TheirCommitKey cs, pubKeyOf e (OurCommitKey cs), RemoteCsvDelay cs, tb, ob)
             else (pubKeyOf e (OurCommitKey cs), TheirCommitKey cs, LocalCsvDelay cs, ob, tb));
          ourCommitTx = (\<not> remoteChain)
      in case createCommitTx e (fundingTxIn lc') selfKey remoteKey revocationKey delay
                delayBalance p2wkhBalance of
           Inl err \<Rightarrow> Some (Inl (ErrLib err), lc')
         | Inr commitTx \<Rightarrow>
     (case addHTLCs e lc' ourCommitTx revocationHash delay False
             (ourUpdates filteredHTLCView) commitTx of
        Inl err \<Rightarrow> Some (Inl (ErrLib err), lc')
      | Inr commitTx \<Rightarrow>
     (case addHTLCs e lc' ourCommitTx revocationHash delay True
             (theirUpdates filteredHTLCView) commitTx of
        Inl err \<Rightarrow> Some (Inl (ErrLib err), lc')
      | Inr commitTx \<Rightarrow>
     (case ColorifyTx (encodeCcInstructions e) (InPlaceSort commitTx) False of
        Inl err \<Rightarrow> Some (Inl (ErrLib err), lc')
      | Inr commitTx \<Rightarrow>
          Some (Inr \<lparr>height = nextHeight, ourMessageIndex = ourLogIdx,
                     theirMessageIndex = theirLogIdx, txn = Some commitTx, sig = [],
                     ourBalance = ob, theirBalance = tb\<rparr>, lc')))))))"

subsection \<open>The sign / receive / revoke cycle\<close>

definition InitialRevocationWindow :: nat where
  "InitialRevocationWindow = 4"

text \<open>
  Every operation returns \<open>None\<close> where the Go code panics, and otherwise its result
  (the error or the returned values) together with the channel as the call leaves it.
\<close>

definition SignNextCommitment ::
  "env \<Rightarrow> LightningChannel \<Rightarrow> ((error + bytes \<times> 32 word) \<times> LightningChannel) option" where
  "SignNextCommitment e lc =
     (case revocationWindow lc of
        [] \<Rightarrow> Some (Inl ErrNoWindow, lc)
      | nextRevocation # restWindow \<Rightarrow>
          if length (usedRevocations lc) = InitialRevocationWindow
            then Some (Inl ErrNoWindow, lc)
          else
            (case fetchCommitmentView e lc True (ourLogCounter lc) (theirLogCounter lc)
                    (NextRevocationKey nextRevocation) (NextRevocationHash nextRevocation) of
               None \<Rightarrow> None
             | Some (Inl err, lc1) \<Rightarrow> Some (Inl err, lc1)
             | Some (Inr newCommitView, lc1) \<Rightarrow>
                 (case txn newCommitView of
                    None \<Rightarrow> None
                  | Some tx \<Rightarrow>
                      (case rawTxInWitnessSignature e tx (Capacity (channelState lc1))
                              (FundingRedeemScript (channelState lc1))
                              (OurMultiSigKey (channelState lc1)) of
                         Inl err \<Rightarrow> Some (Inl (ErrLib err), lc1)
                       | Inr sg \<Rightarrow>
                           Some (Inr (sg, theirLogCounter lc1),
                                 lc1\<lparr>remoteCommitChain :=
                                        addCommitment newCommitView (remoteCommitChain lc1),
                                      usedRevocations :=
                                        usedRevocations lc1 @ [nextRevocation],
                                      revocationWindow := restWindow\<rparr>)))))"

definition ReceiveNewCommitment ::
  "env \<Rightarrow> LightningChannel \<Rightarrow> bytes \<Rightarrow> 32 word
     \<Rightarrow> ((error + unit) \<times> LightningChannel) option" where
  "ReceiveNewCommitment e lc rawSig ourLogIdx =
     (let theirCommitKey = TheirCommitKey (channelState lc);
          theirMultiSigKey = TheirMultiSigKey (channelState lc);
          nextHeight = currentHeight lc + 1
      in case elkremAtIndex e (LocalElkrem (channelState lc)) nextHeight of
           Inl err \<Rightarrow> Some (Inl (ErrLib err), lc)
         | Inr revocation \<Rightarrow>
     (case fetchCommitmentView e lc False ourLogIdx (theirLogCounter lc)
             (deriveRevocationPubkey e theirCommitKey revocation) (sha256 e revocation) of
        None \<Rightarrow> None
      | Some (Inl err, lc1) \<Rightarrow> Some (Inl err, lc1)
      | Some (Inr localCommitmentView, lc1) \<Rightarrow>
     (case txn localCommitmentView of
        None \<Rightarrow> None
      | Some localCommitTx \<Rightarrow>
     (case calcWitnessSigHash e (FundingRedeemScript (channelState lc1)) localCommitTx
             (Capacity (channelState lc1)) of
        Inl err \<Rightarrow> Some (Inl (ErrLib err), lc1)
      | Inr sigHash \<Rightarrow>
     (case parseSignature e rawSig of
        Inl err \<Rightarrow> Some (Inl (ErrLib err), lc1)
      | Inr sg \<Rightarrow>
          if \<not> verifySignature e sg sigHash theirMultiSigKey
            then Some (Inl ErrInvalidCommitSig, lc1)
          else Some (Inr (),
                 lc1\<lparr>localCommitChain :=
                        addCommitment (localCommitmentView\<lparr>sig := rawSig\<rparr>)
                          (localCommitChain lc1)\<rparr>))))))"

text \<open>
  \<open>RevokeCurrentCommitment\<close>.  The window edge is incremented before the second
  elkrem lookup, so an error there leaves it incremented.  The trace line reads
  \<open>localCommitChain.tail()\<close> before the tail is advanced, and the tail is read again
  afterwards.
\<close>

definition RevokeCurrentCommitment ::
  "env \<Rightarrow> LightningChannel \<Rightarrow> ((error + CommitRevocation) \<times> LightningChannel) option" where
  "RevokeCurrentCommitment e lc =
     (let theirCommitKey = TheirCommitKey (channelState lc)
      in case elkremAtIndex e (LocalElkrem (channelState lc)) (currentHeight lc) of
           Inl err \<Rightarrow> Some (Inl (ErrLib err), lc)
         | Inr currentRevocation \<Rightarrow>
     (let lc1 = lc\<lparr>revocationWindowEdge := revocationWindowEdge lc + 1\<rparr>
      in case elkremAtIndex e (LocalElkrem (channelState lc1)) (revocationWindowEdge lc1) of
           Inl err \<Rightarrow> Some (Inl (ErrLib err), lc1)
         | Inr revocationEdge \<Rightarrow>
     (case advanceTail (localCommitChain lc1) of
        None \<Rightarrow> None
      | Some chain \<Rightarrow>
     (case tail chain of
        None \<Rightarrow> None
      | Some newTail \<Rightarrow>
          (let cs = (channelState lc1)
                 \<lparr>OurBalance := ourBalance newTail, TheirBalance := theirBalance newTail,
                  OurCommitTx := txn newTail, OurCommitSig := sig newTail,
                  NumUpdates := NumUpdates (channelState lc1) + 1\<rparr>;
               lc2 = lc1\<lparr>localCommitChain := chain,
                         currentHeight := currentHeight lc1 + 1,
                         channelState := cs\<rparr>
           in case fullSync e cs of
                Some err \<Rightarrow> Some (Inl (ErrLib err), lc2)
              | None \<Rightarrow>
                  Some (Inr \<lparr>ChannelPoint = ChanID cs, Revocation = currentRevocation,
                             NextRevocationKey =
                               deriveRevocationPubkey e theirCommitKey revocationEdge,
                             NextRevocationHash = sha256 e revocationEdge\<rparr>, lc2))))))"

text \<open>The scan of \<open>ReceiveRevocation\<close> over their log for entries to forward.\<close>

fun forwardScan ::
  "64 word \<Rightarrow> 64 word \<Rightarrow> addr list \<Rightarrow> (addr \<Rightarrow> PaymentDescriptor) \<times> addr list
     \<Rightarrow> (addr \<Rightarrow> PaymentDescriptor) \<times> addr list" where
  "forwardScan remoteChainTail localChainTail [] st = st"
| "forwardScan remoteChainTail localChainTail (a # rest) (h, fwd) =
     (let htlc = h a;
          uncomitted = (addCommitHeightRemote htlc = 0 \<or> addCommitHeightLocal htlc = 0)
      in if isForwarded htlc then forwardScan remoteChainTail localChainTail rest (h, fwd)
         else if EntryType htlc = Add \<and> uncomitted
           then forwardScan remoteChainTail localChainTail rest (h, fwd)
         else if EntryType htlc = Add \<and> remoteChainTail \<ge> addCommitHeightRemote htlc
                   \<and> localChainTail \<ge> addCommitHeightLocal htlc
           then forwardScan remoteChainTail localChainTail rest
                  (h(a := htlc\<lparr>isForwarded := True\<rparr>), fwd @ [a])
         else if EntryType htlc \<noteq> Add \<and> remoteChainTail \<ge> removeCommitHeightRemote htlc
                   \<and> localChainTail \<ge> removeCommitHeightLocal htlc
           then forwardScan remoteChainTail localChainTail rest
                  (h(a := htlc\<lparr>isForwarded := True\<rparr>), fwd @ [a])
         else forwardScan remoteChainTail localChainTail rest (h, fwd))"

text \<open>
  The closure \<open>compactLog\<close> of \<open>compactLogs\<close>.  The loop walks the elements of \<open>logA\<close>,
  taking the successor before it removes the current one; the state is
  \<open>(logA, logB, indexB, indexA)\<close>.  \<open>indexB[htlc.ParentIndex]\<close> is \<open>nil\<close> for a missing
  key, and reading its value panics.  \<open>List.Remove\<close> takes the element out of the list
  that holds it.
\<close>

definition evictable :: "PaymentDescriptor \<Rightarrow> 64 word \<Rightarrow> 64 word \<Rightarrow> bool" where
  "evictable htlc localChainTail remoteChainTail \<longleftrightarrow>
     EntryType htlc \<noteq> Add
     \<and> \<not> (removeCommitHeightRemote htlc = 0 \<or> removeCommitHeightLocal htlc = 0)
     \<and> remoteChainTail \<ge> removeCommitHeightRemote htlc
     \<and> localChainTail \<ge> removeCommitHeightLocal htlc"

fun compactLog ::
  "(addr \<Rightarrow> PaymentDescriptor) \<Rightarrow> 64 word \<Rightarrow> 64 word \<Rightarrow> addr list
     \<Rightarrow> addr list \<times> addr list \<times> (32 word \<rightharpoonup> addr) \<times> (32 word \<rightharpoonup> addr)
     \<Rightarrow> (addr list \<times> addr list \<times> (32 word \<rightharpoonup> addr) \<times> (32 word \<rightharpoonup> addr)) option" where
  "compactLog h localChainTail remoteChainTail [] st = Some st"
| "compactLog h localChainTail remoteChainTail (e # rest) (logA, logB, indexB, indexA) =
     (let htlc = h e
      in if EntryType htlc = Add
           then compactLog h localChainTail remoteChainTail rest (logA, logB, indexB, indexA)
         else if removeCommitHeightRemote htlc = 0 \<or> removeCommitHeightLocal htlc = 0
           then compactLog h localChainTail remoteChainTail rest (logA, logB, indexB, indexA)
         else if remoteChainTail \<ge> removeCommitHeightRemote htlc
                   \<and> localChainTail \<ge> removeCommitHeightLocal htlc
           then (case indexB (ParentIndex htlc) of
                   None \<Rightarrow> None
                 | Some parentLink \<Rightarrow>
                     (let parentIndex = Index (h parentLink)
                      in compactLog h localChainTail remoteChainTail rest
                           (filter (\<lambda>x. x \<noteq> e) logA,
                            filter (\<lambda>x. x \<noteq> parentLink) logB,
                            indexB(parentIndex := None),
                            indexA(Index htlc := None))))
         else compactLog h localChainTail remoteChainTail rest (logA, logB, indexB, indexA))"

definition compactLogs ::
  "LightningChannel \<Rightarrow> 64 word \<Rightarrow> 64 word \<Rightarrow> LightningChannel option" where
  "compactLogs lc localChainTail remoteChainTail =
     (case compactLog (descriptors lc) localChainTail remoteChainTail (ourUpdateLog lc)
             (ourUpdateLog lc, theirUpdateLog lc, theirLogIndex lc, ourLogIndex lc) of
        None \<Rightarrow> None
      | Some (ourLog1, theirLog1, theirIndex1, ourIndex1) \<Rightarrow>
     (case compactLog (descriptors lc) localChainTail remoteChainTail theirLog1
             (theirLog1, ourLog1, ourIndex1, theirIndex1) of
        None \<Rightarrow> None
      | Some (theirLog2, ourLog2, ourIndex2, theirIndex2) \<Rightarrow>
          Some (lc\<lparr>ourUpdateLog := ourLog2, theirUpdateLog := theirLog2,
                   ourLogIndex := ourIndex2, theirLogIndex := theirIndex2\<rparr>)))"

text \<open>
  \<open>ReceiveRevocation\<close>.  \<open>RemoteElkrem\<close> is a pointer, so \<open>AddNext\<close> updates the
  receiver held by the channel state before the key and hash checks run.  Reading
  \<open>usedRevocations[0]\<close> of an empty slice panics; the trace line reads the remote
  tail before the persistence call, and both tails are read after the remote tail is
  advanced.
\<close>

definition ReceiveRevocation ::
  "env \<Rightarrow> LightningChannel \<Rightarrow> CommitRevocation
     \<Rightarrow> ((error + addr list) \<times> LightningChannel) option" where
  "ReceiveRevocation e lc revMsg =
     (if Revocation revMsg = zeroHash
        then Some (Inr [], lc\<lparr>revocationWindow := revocationWindow lc @ [revMsg]\<rparr>)
      else
     (let ourCommitKey = OurCommitKey (channelState lc);
          currentRevocationKey = TheirCurrentRevocation (channelState lc);
          pendingRevocation = Revocation revMsg
      in case elkremAddNext e (RemoteElkrem (channelState lc)) pendingRevocation of
           Inl err \<Rightarrow> Some (Inl (ErrLib err), lc)
         | Inr receiver \<Rightarrow>
     (let lc1 = lc\<lparr>channelState := (channelState lc)\<lparr>RemoteElkrem := receiver\<rparr>\<rparr>
      in if pubKeyOf e (deriveRevocationPrivKey e ourCommitKey pendingRevocation)
              \<noteq> currentRevocationKey
           then Some (Inl ErrRevocationKeyMismatch, lc1)
         else if TheirCurrentRevocationHash (channelState lc1) \<noteq> zeroHash
                 \<and> TheirCurrentRevocationHash (channelState lc1) \<noteq> sha256 e pendingRevocation
           then Some (Inl ErrRevocationHashMismatch, lc1)
         else
     (case usedRevocations lc1 of
        [] \<Rightarrow> None
      | nextRevocation # restUsed \<Rightarrow>
     (let cs = (channelState lc1)
                 \<lparr>TheirCurrentRevocation := NextRevocationKey nextRevocation,
                  TheirCurrentRevocationHash := NextRevocationHash nextRevocation\<rparr>;
          lc2 = lc1\<lparr>channelState := cs, usedRevocations := restUsed,
                    revocationWindow := revocationWindow lc1 @ [revMsg]\<rparr>
      in case tail (remoteCommitChain lc2) of
           None \<Rightarrow> None
         | Some revoked \<Rightarrow>
     (case syncRevocation e cs of
        Some err \<Rightarrow> Some (Inl (ErrLib err), lc2)
      | None \<Rightarrow>
     (case advanceTail (remoteCommitChain lc2) of
        None \<Rightarrow> None
      | Some chain \<Rightarrow>
     (case tail chain of
        None \<Rightarrow> None
      | Some remoteTail \<Rightarrow>
     (case tail (localCommitChain lc2) of
        None \<Rightarrow> None
      | Some localTail \<Rightarrow>
          (let (h, htlcsToForward) =
                 forwardScan (height remoteTail) (height localTail) (theirUpdateLog lc2)
                   (descriptors lc2, []);
               lc3 = lc2\<lparr>remoteCommitChain := chain, descriptors := h\<rparr>
           in case compactLogs lc3 (height localTail) (height remoteTail) of
                None \<Rightarrow> None
              | Some lc4 \<Rightarrow> Some (Inr htlcsToForward, lc4)))))))))))"

definition ExtendRevocationWindow ::
  "env \<Rightarrow> LightningChannel \<Rightarrow> (error + CommitRevocation) \<times> LightningChannel" where
  "ExtendRevocationWindow e lc =
     (let nextHeight = revocationWindowEdge lc + 1
      in case elkremAtIndex e (LocalElkrem (channelState lc)) nextHeight of
           Inl err \<Rightarrow> (Inl (ErrLib err), lc)
         | Inr revocation \<Rightarrow>
             (Inr \<lparr>ChannelPoint = ChanID (channelState lc), Revocation = zeroHash,
                   NextRevocationKey =
                     deriveRevocationPubkey e (TheirCommitKey (channelState lc)) revocation,
                   NextRevocationHash = sha256 e revocation\<rparr>,
              lc\<lparr>revocationWindowEdge := revocationWindowEdge lc + 1\<rparr>))"

subsection \<open>HTLC operations\<close>

text \<open>A descriptor literal of the source leaves the fields it does not name at zero.\<close>

definition newDescriptor ::
  "updateType \<Rightarrow> bytes \<Rightarrow> 32 word \<Rightarrow> Amount \<Rightarrow> 32 word \<Rightarrow> 32 word \<Rightarrow> PaymentDescriptor" where
  "newDescriptor ty rhash timeout amt idx parent =
     \<lparr>RHash = rhash, Timeout_blocks = timeout, Amount = amt, Index = idx,
      ParentIndex = parent, Payload = [], EntryType = ty,
      addCommitHeightRemote = 0, addCommitHeightLocal = 0,
      removeCommitHeightRemote = 0, removeCommitHeightLocal = 0,
      isForwarded = False, settled = False\<rparr>"

text \<open>\<open>AddHTLC\<close> and \<open>ReceiveHTLC\<close> read \<open>htlc.RedemptionHashes[0]\<close>, which panics on an
  empty slice.\<close>

definition AddHTLC ::
  "LightningChannel \<Rightarrow> HTLCAddRequest \<Rightarrow> (32 word \<times> LightningChannel) option" where
  "AddHTLC lc htlc =
     (case RedemptionHashes htlc of
        [] \<Rightarrow> None
      | rhash # others \<Rightarrow>
          (let pd = newDescriptor Add rhash (Expiry htlc) (ReqAmount htlc) (ourLogCounter lc) 0;
               a = nextAddr lc
           in Some (Index pd,
                lc\<lparr>descriptors := (descriptors lc)(a := pd), nextAddr := Suc a,
                   ourUpdateLog := ourUpdateLog lc @ [a],
                   ourLogIndex := (ourLogIndex lc)(Index pd \<mapsto> a),
                   ourLogCounter := ourLogCounter lc + 1\<rparr>)))"

definition ReceiveHTLC ::
  "LightningChannel \<Rightarrow> HTLCAddRequest \<Rightarrow> (32 word \<times> LightningChannel) option" where
  "ReceiveHTLC lc htlc =
     (case RedemptionHashes htlc of
        [] \<Rightarrow> None
      | rhash # others \<Rightarrow>
          (let pd = newDescriptor Add rhash (Expiry htlc) (ReqAmount htlc)
                      (theirLogCounter lc) 0;
               a = nextAddr lc
           in Some (Index pd,
                lc\<lparr>descriptors := (descriptors lc)(a := pd), nextAddr := Suc a,
                   theirUpdateLog := theirUpdateLog lc @ [a],
                   theirLogIndex := (theirLogIndex lc)(Index pd \<mapsto> a),
                   theirLogCounter := theirLogCounter lc + 1\<rparr>)))"

text \<open>The search loop of \<open>SettleHTLC\<close> over their log.\<close>

fun settleScan :: "(addr \<Rightarrow> PaymentDescriptor) \<Rightarrow> bytes \<Rightarrow> addr list \<Rightarrow> addr option" where
  "settleScan h paymentHash [] = None"
| "settleScan h paymentHash (a # rest) =
     (if EntryType (h a) \<noteq> Add then settleScan h paymentHash rest
      else if \<not> settled (h a) \<and> RHash (h a) = paymentHash then Some a
      else settleScan h paymentHash rest)"

definition SettleHTLC ::
  "env \<Rightarrow> LightningChannel \<Rightarrow> bytes \<Rightarrow> (error + 32 word) \<times> LightningChannel" where
  "SettleHTLC e lc preimage =
     (let paymentHash = sha256 e preimage
      in case settleScan (descriptors lc) paymentHash (theirUpdateLog lc) of
           None \<Rightarrow> (Inl ErrInvalidPaymentHash, lc)
         | Some targetHTLC \<Rightarrow>
             (let h = (descriptors lc)
                        (targetHTLC := (descriptors lc targetHTLC)\<lparr>settled := True\<rparr>);
                  parentPd = h targetHTLC;
                  pd = newDescriptor Settle [] 0 (Amount parentPd) (ourLogCounter lc)
                         (Index parentPd);
                  a = nextAddr lc;
                  h = h(a := pd)
              in (Inr (Index (h targetHTLC)),
                  lc\<lparr>descriptors := h, nextAddr := Suc a,
                     ourUpdateLog := ourUpdateLog lc @ [a],
                     ourLogCounter := ourLogCounter lc + 1\<rparr>)))"

definition ReceiveHTLCSettle ::
  "env \<Rightarrow> LightningChannel \<Rightarrow> bytes \<Rightarrow> 32 word \<Rightarrow> (error + unit) \<times> LightningChannel" where
  "ReceiveHTLCSettle e lc preimage logIndex =
     (let paymentHash = sha256 e preimage
      in case ourLogIndex lc logIndex of
           None \<Rightarrow> (Inl ErrNonExistantLogEntry, lc)
         | Some addEntry \<Rightarrow>
             (let htlc = descriptors lc addEntry
              in if RHash htlc \<noteq> paymentHash then (Inl ErrInvalidPaymentHash, lc)
                 else
                   (let pd = newDescriptor Settle [] 0 (Amount htlc) (theirLogCounter lc)
                               (Index htlc);
                        a = nextAddr lc
                    in (Inr (),
                        lc\<lparr>descriptors := (descriptors lc)(a := pd), nextAddr := Suc a,
                           theirUpdateLog := theirUpdateLog lc @ [a],
                           theirLogCounter := theirLogCounter lc + 1\<rparr>))))"

subsection \<open>Cooperative close\<close>

text \<open>
  \<open>createCooperativeCloseTx\<close>.  The fee deduction is commented out in the source, so
  \<open>initiator\<close> is not read.  When \<open>ColorifyTx\<close> fails the function calls \<open>log.Fatal\<close>,
  which ends the process: the model returns \<open>None\<close>.
\<close>

definition createCooperativeCloseTx ::
  "env \<Rightarrow> TxIn \<Rightarrow> Amount \<Rightarrow> Amount \<Rightarrow> bytes \<Rightarrow> bytes \<Rightarrow> bool \<Rightarrow> MsgTx option" where
  "createCooperativeCloseTx e fundingIn ob tb ourDeliveryScript theirDeliveryScript initiator =
     (let closeTx = AddTxIn fundingIn NewMsgTx;
          closeTx = (if ob \<noteq> 0
                       then AddTxOut \<lparr>Value = ob, PkScript = ourDeliveryScript\<rparr> closeTx
                     else closeTx);
          closeTx = (if tb \<noteq> 0
                       then AddTxOut \<lparr>Value = tb, PkScript = theirDeliveryScript\<rparr> closeTx
                     else closeTx)
      in case ColorifyTx (encodeCcInstructions e) (InPlaceSort closeTx) False of
           Inl err \<Rightarrow> None
         | Inr colored \<Rightarrow> Some colored)"

definition InitCooperativeClose ::
  "env \<Rightarrow> LightningChannel \<Rightarrow> ((error + bytes \<times> bytes) \<times> LightningChannel) option" where
  "InitCooperativeClose e lc =
     (if status lc = channelClosing \<or> status lc = channelClosed
        then Some (Inl ErrChanClosing, lc)
      else
        (let lc1 = lc\<lparr>status := channelClosing\<rparr>;
             cs = channelState lc1
         in case createCooperativeCloseTx e (fundingTxIn lc1) (OurBalance cs) (TheirBalance cs)
                   (OurDeliveryScript cs) (TheirDeliveryScript cs) True of
              None \<Rightarrow> None
            | Some closeTx \<Rightarrow>
                (case rawTxInWitnessSignature e closeTx (Capacity cs) (FundingRedeemScript cs)
                        (OurMultiSigKey cs) of
                   Inl err \<Rightarrow> Some (Inl (ErrLib err), lc1)
                 | Inr closeSig \<Rightarrow> Some (Inr (closeSig, txSha e closeTx), lc1))))"

subsection \<open>Construction\<close>

text \<open>
  \<open>NewLightningChannel\<close>: both chains start with the same initial commitment, which
  carries the settled balances and no transaction; the logs and index maps are empty;
  \<open>status\<close> has its zero value.
\<close>

definition NewLightningChannel :: "env \<Rightarrow> OpenChannel \<Rightarrow> lib_error + LightningChannel" where
  "NewLightningChannel e state =
     (let initialCommitment =
            \<lparr>height = NumUpdates state, ourMessageIndex = 0, theirMessageIndex = 0,
             txn = None, sig = [], ourBalance = OurBalance state,
             theirBalance = TheirBalance state\<rparr>
      in case witnessScriptHash e (FundingRedeemScript state) of
           Inl err \<Rightarrow> Inl err
         | Inr fundingPkScript \<Rightarrow>
             Inr \<lparr>ourLogCounter = 0, theirLogCounter = 0, status = channelPending,
                  currentHeight = NumUpdates state,
                  revocationWindowEdge = NumUpdates state,
                  usedRevocations = [], revocationWindow = [],
                  remoteCommitChain =
                    addCommitment initialCommitment (newCommitmentChain (NumUpdates state)),
                  localCommitChain =
                    addCommitment initialCommitment (newCommitmentChain (NumUpdates state)),
                  channelState = state,
                  ourUpdateLog = [], theirUpdateLog = [],
                  ourLogIndex = Map.empty, theirLogIndex = Map.empty,
                  fundingTxIn = NewTxIn (FundingOutpoint state),
                  fundingP2WSH = fundingPkScript,
                  descriptors = (\<lambda>a. newDescriptor Add [] 0 0 0 0), nextAddr = 0\<rparr>)"

text \<open>The public operations of the state machine as one step function; a panic ends
  the run.\<close>

datatype call =
    CallSignNextCommitment
  | CallReceiveNewCommitment bytes "32 word"
  | CallRevokeCurrentCommitment
  | CallReceiveRevocation CommitRevocation
  | CallExtendRevocationWindow
  | CallAddHTLC HTLCAddRequest
  | CallReceiveHTLC HTLCAddRequest
  | CallSettleHTLC bytes
  | CallReceiveHTLCSettle bytes "32 word"

fun exec :: "env \<Rightarrow> call \<Rightarrow> LightningChannel \<Rightarrow> LightningChannel option" where
  "exec e CallSignNextCommitment lc = map_option snd (SignNextCommitment e lc)"
| "exec e (CallReceiveNewCommitment rawSig ourLogIdx) lc =
     map_option snd (ReceiveNewCommitment e lc rawSig ourLogIdx)"
| "exec e CallRevokeCurrentCommitment lc = map_option snd (RevokeCurrentCommitment e lc)"
| "exec e (CallReceiveRevocation revMsg) lc = map_option snd (ReceiveRevocation e lc revMsg)"
| "exec e CallExtendRevocationWindow lc = Some (snd (ExtendRevocationWindow e lc))"
| "exec e (CallAddHTLC htlc) lc = map_option snd (AddHTLC lc htlc)"
| "exec e (CallReceiveHTLC htlc) lc = map_option snd (ReceiveHTLC lc htlc)"
| "exec e (CallSettleHTLC preimage) lc = Some (snd (SettleHTLC e lc preimage))"
| "exec e (CallReceiveHTLCSettle preimage logIndex) lc =
     Some (snd (ReceiveHTLCSettle e lc preimage logIndex))"

fun run :: "env \<Rightarrow> call list \<Rightarrow> LightningChannel \<Rightarrow> LightningChannel option" where
  "run e [] lc = Some lc"
| "run e (c # cs) lc = (case exec e c lc of None \<Rightarrow> None | Some lc' \<Rightarrow> run e cs lc')"

section \<open>Coin selection (lnwallet/wallet.go)\<close>

record TxoData =
  AssetId :: string
  TxoValue :: Amount

text \<open>\<open>Utxo\<close>: \<open>ColorData\<close> is a pointer, \<open>None\<close> when \<open>nil\<close>.\<close>

record Utxo =
  UtxoValue :: Amount
  ColorData :: "TxoData option"
  UtxoOutPoint :: OutPoint

text \<open>
  The loop of \<open>selectInputs\<close>: while \<open>satSelected < amt\<close> (a signed comparison), fail
  when the coins are used up, otherwise look at the next coin.  Reading
  \<open>coin.ColorData.AssetId\<close> through a \<open>nil\<close> pointer panics.
\<close>

fun selectLoop ::
  "Amount \<Rightarrow> string \<Rightarrow> Utxo list \<Rightarrow> Amount \<Rightarrow> OutPoint list
     \<Rightarrow> (error + Amount \<times> OutPoint list) option" where
  "selectLoop amt assetId [] satSelected selectedUtxos =
     (if satSelected <s amt then Some (Inl ErrInsufficientFunds)
      else Some (Inr (satSelected, selectedUtxos)))"
| "selectLoop amt assetId (coin # rest) satSelected selectedUtxos =
     (if satSelected <s amt
        then (case ColorData coin of
                None \<Rightarrow> None
              | Some cd \<Rightarrow>
                  if AssetId cd = assetId
                    then selectLoop amt assetId rest (satSelected + TxoValue cd)
                           (selectedUtxos @ [UtxoOutPoint coin])
                  else selectLoop amt assetId rest satSelected selectedUtxos)
      else Some (Inr (satSelected, selectedUtxos)))"

definition selectInputs ::
  "Amount \<Rightarrow> Utxo list \<Rightarrow> string \<Rightarrow> (error + Amount \<times> OutPoint list) option" where
  "selectInputs amt coins assetId = selectLoop amt assetId coins 0 []"

text \<open>\<open>coinSelect\<close>: the fee rate is not read; the code after the first \<open>return\<close> is dead.\<close>

definition coinSelect ::
  "64 word \<Rightarrow> Amount \<Rightarrow> Utxo list \<Rightarrow> string \<Rightarrow> (error + OutPoint list \<times> Amount) option" where
  "coinSelect feeRate amt coins assetId =
     (case selectInputs amt coins assetId of
        None \<Rightarrow> None
      | Some (Inl err) \<Rightarrow> Some (Inl err)
      | Some (Inr (totalTokens, selectedUtxos)) \<Rightarrow>
          Some (Inr (selectedUtxos, totalTokens - amt)))"

section \<open>Vocabulary of the statements\<close>

text \<open>The add and remove heights of an entry on the chain being built.\<close>

definition addHeightOn :: "bool \<Rightarrow> PaymentDescriptor \<Rightarrow> 64 word" where
  "addHeightOn remoteChain htlc =
     (if remoteChain then addCommitHeightRemote htlc else addCommitHeightLocal htlc)"

definition removeHeightOn :: "bool \<Rightarrow> PaymentDescriptor \<Rightarrow> 64 word" where
  "removeHeightOn remoteChain htlc =
     (if remoteChain then removeCommitHeightRemote htlc else removeCommitHeightLocal htlc)"

definition setAddHeightOn :: "bool \<Rightarrow> 64 word \<Rightarrow> PaymentDescriptor \<Rightarrow> PaymentDescriptor" where
  "setAddHeightOn remoteChain h htlc =
     (if remoteChain then htlc\<lparr>addCommitHeightRemote := h\<rparr>
      else htlc\<lparr>addCommitHeightLocal := h\<rparr>)"

definition setRemoveHeightOn :: "bool \<Rightarrow> 64 word \<Rightarrow> PaymentDescriptor \<Rightarrow> PaymentDescriptor" where
  "setRemoveHeightOn remoteChain h htlc =
     (if remoteChain then htlc\<lparr>removeCommitHeightRemote := h\<rparr>
      else htlc\<lparr>removeCommitHeightLocal := h\<rparr>)"

text \<open>The colored-coin instructions that carry the values of a list of outputs: the
  instruction at position \<open>k\<close> names output \<open>k\<close> and the value of that output.\<close>

definition ccInstructions :: "TxOut list \<Rightarrow> CcInstruction list" where
  "ccInstructions outs =
     map (\<lambda>(k, out). \<lparr>Skip = False, Range = False, Percent = False,
                        Output = of_nat k, CcAmount = Value out\<rparr>) (enumerate 0 outs)"

text \<open>An entry that \<open>SettleHTLC\<close> may settle: an Add that is not settled and carries the
  payment hash.\<close>

definition settleCandidate :: "(addr \<Rightarrow> PaymentDescriptor) \<Rightarrow> bytes \<Rightarrow> addr \<Rightarrow> bool" where
  "settleCandidate h paymentHash a \<longleftrightarrow>
     EntryType (h a) = Add \<and> \<not> settled (h a) \<and> RHash (h a) = paymentHash"

text \<open>One output per party with a non-zero settled balance, paying that balance to the
  party's delivery script.\<close>

definition settledOutputs :: "OpenChannel \<Rightarrow> TxOut list" where
  "settledOutputs cs =
     (if OurBalance cs \<noteq> 0
        then [\<lparr>Value = OurBalance cs, PkScript = OurDeliveryScript cs\<rparr>] else [])
     @ (if TheirBalance cs \<noteq> 0
        then [\<lparr>Value = TheirBalance cs, PkScript = TheirDeliveryScript cs\<rparr>] else [])"

text \<open>
  Coin selection: whether a coin is of the asset, the value it contributes (as an
  integer, zero for another asset), and the sum of the contributions of a list.
  A list of coins is well formed for the asset when every coin has color data, no
  coin of the asset has a negative value, and the sum fits in \<open>int64\<close>.
\<close>

definition ofAsset :: "string \<Rightarrow> Utxo \<Rightarrow> bool" where
  "ofAsset assetId coin \<longleftrightarrow>
     (case ColorData coin of None \<Rightarrow> False | Some cd \<Rightarrow> AssetId cd = assetId)"

definition assetValue :: "string \<Rightarrow> Utxo \<Rightarrow> int" where
  "assetValue assetId coin =
     (case ColorData coin of
        None \<Rightarrow> 0
      | Some cd \<Rightarrow> if AssetId cd = assetId then sint (TxoValue cd) else 0)"

definition assetSum :: "string \<Rightarrow> Utxo list \<Rightarrow> int" where
  "assetSum assetId coins = sum_list (map (assetValue assetId) coins)"

definition wellFormedCoins :: "string \<Rightarrow> Utxo list \<Rightarrow> bool" where
  "wellFormedCoins assetId coins \<longleftrightarrow>
     list_all (\<lambda>coin. ColorData coin \<noteq> None \<and> 0 \<le> assetValue assetId coin) coins
     \<and> assetSum assetId coins < 2 ^ 63"

text \<open>A chain whose heights increase by one from each commitment to the next.\<close>

definition contiguous :: "commitment list \<Rightarrow> bool" where
  "contiguous cs \<longleftrightarrow> (\<forall>i. Suc i < length cs \<longrightarrow> height (cs ! Suc i) = height (cs ! i) + 1)"

text \<open>The window invariant of a channel: at most \<open>InitialRevocationWindow\<close> used
  revocations, one remote commitment more than used revocations, and contiguous heights
  on the remote chain.\<close>

definition windowInv :: "LightningChannel \<Rightarrow> bool" where
  "windowInv lc \<longleftrightarrow>
     length (usedRevocations lc) \<le> InitialRevocationWindow
     \<and> length (commitments (remoteCommitChain lc)) = Suc (length (usedRevocations lc))
     \<and> contiguous (commitments (remoteCommitChain lc))"

text \<open>The sum of the amounts of the entries of a view.\<close>

definition pendingAmount :: "(addr \<Rightarrow> PaymentDescriptor) \<Rightarrow> htlcView \<Rightarrow> Amount" where
  "pendingAmount h view =
     sum_list (map (\<lambda>a. Amount (h a)) (ourUpdates view @ theirUpdates view))"

text \<open>
  Log compaction.  \<open>evictable\<close> (defined with \<open>compactLog\<close>) is the condition under which
  the loop evicts a Settle or Timeout entry.  The parents of the evictable entries of a
  log are the entries that the other log's index map holds under their \<open>ParentIndex\<close>.
  An entry of a log is removed when it is an Add that is such a parent, or a Settle or
  Timeout that is evictable.
\<close>

definition parentsOf ::
  "(addr \<Rightarrow> PaymentDescriptor) \<Rightarrow> (32 word \<rightharpoonup> addr) \<Rightarrow> 64 word \<Rightarrow> 64 word \<Rightarrow> addr list
     \<Rightarrow> addr set" where
  "parentsOf h idx localChainTail remoteChainTail es =
     {p. \<exists>e \<in> set es. evictable (h e) localChainTail remoteChainTail
                       \<and> idx (ParentIndex (h e)) = Some p}"

definition removedFrom ::
  "(addr \<Rightarrow> PaymentDescriptor) \<Rightarrow> (32 word \<rightharpoonup> addr) \<Rightarrow> 64 word \<Rightarrow> 64 word \<Rightarrow> addr list
     \<Rightarrow> addr \<Rightarrow> bool" where
  "removedFrom h idx localChainTail remoteChainTail otherLog x \<longleftrightarrow>
     (if EntryType (h x) = Add then x \<in> parentsOf h idx localChainTail remoteChainTail otherLog
      else evictable (h x) localChainTail remoteChainTail)"

text \<open>
  Conditions on the index maps: an index map holds Add entries only; it holds every
  entry under that entry's own \<open>Index\<close>; the evictable entries of a log have parents in
  the index map, no two of them the same; and no Settle or Timeout entry of a log has
  an \<open>Index\<close> that is a key of that log's index map.
\<close>

definition indexToAdds :: "(addr \<Rightarrow> PaymentDescriptor) \<Rightarrow> (32 word \<rightharpoonup> addr) \<Rightarrow> bool" where
  "indexToAdds h idx \<longleftrightarrow> (\<forall>k a. idx k = Some a \<longrightarrow> EntryType (h a) = Add)"

definition keyed :: "(addr \<Rightarrow> PaymentDescriptor) \<Rightarrow> (32 word \<rightharpoonup> addr) \<Rightarrow> bool" where
  "keyed h idx \<longleftrightarrow> (\<forall>k a. idx k = Some a \<longrightarrow> Index (h a) = k)"

definition parentsIndexed ::
  "(addr \<Rightarrow> PaymentDescriptor) \<Rightarrow> (32 word \<rightharpoonup> addr) \<Rightarrow> 64 word \<Rightarrow> 64 word \<Rightarrow> addr list
     \<Rightarrow> bool" where
  "parentsIndexed h idx localChainTail remoteChainTail es \<longleftrightarrow>
     (\<forall>e \<in> set es. evictable (h e) localChainTail remoteChainTail
                      \<longrightarrow> ParentIndex (h e) \<in> dom idx)
     \<and> distinct (map (\<lambda>e. ParentIndex (h e))
                   (filter (\<lambda>e. evictable (h e) localChainTail remoteChainTail) es))"

definition removalsUnindexed ::
  "(addr \<Rightarrow> PaymentDescriptor) \<Rightarrow> (32 word \<rightharpoonup> addr) \<Rightarrow> addr list \<Rightarrow> bool" where
  "removalsUnindexed h idx log \<longleftrightarrow>
     (\<forall>e \<in> set log. EntryType (h e) \<noteq> Add \<longrightarrow> idx (Index (h e)) = None)"

text \<open>
  Reachable channels.  Two stores have the same shape when every entry has the same type
  and the same \<open>Index\<close> in both.  An index map is a map of allocated Add entries when
  every entry it holds was handed out by the allocator, is an Add, and is held under its
  own \<open>Index\<close>.  The logs are allocated when every entry of a log was handed out by the
  allocator.
\<close>

definition sameShape :: "(addr \<Rightarrow> PaymentDescriptor) \<Rightarrow> (addr \<Rightarrow> PaymentDescriptor) \<Rightarrow> bool" where
  "sameShape h h' \<longleftrightarrow>
     (\<forall>a. EntryType (h' a) = EntryType (h a) \<and> Index (h' a) = Index (h a))"

definition indexedAdds ::
  "(addr \<Rightarrow> PaymentDescriptor) \<Rightarrow> addr \<Rightarrow> (32 word \<rightharpoonup> addr) \<Rightarrow> bool" where
  "indexedAdds h n idx \<longleftrightarrow>
     (\<forall>k a. idx k = Some a \<longrightarrow> a < n \<and> EntryType (h a) = Add \<and> Index (h a) = k)"

definition indexInv :: "LightningChannel \<Rightarrow> bool" where
  "indexInv lc \<longleftrightarrow>
     indexedAdds (descriptors lc) (nextAddr lc) (ourLogIndex lc)
     \<and> indexedAdds (descriptors lc) (nextAddr lc) (theirLogIndex lc)"

definition logsAllocated :: "LightningChannel \<Rightarrow> bool" where
  "logsAllocated lc \<longleftrightarrow>
     (\<forall>a \<in> set (ourUpdateLog lc). a < nextAddr lc)
     \<and> (\<forall>a \<in> set (theirUpdateLog lc). a < nextAddr lc)"

text \<open>
  The window.  A call is a window extension when it is \<open>ReceiveRevocation\<close> with a zero
  pre-image; \<open>extensionsReceived\<close> counts them in a sequence of calls.
\<close>

definition windowExtensionCall :: "call \<Rightarrow> bool" where
  "windowExtensionCall c \<longleftrightarrow>
     (case c of CallReceiveRevocation revMsg \<Rightarrow> Revocation revMsg = zeroHash | _ \<Rightarrow> False)"

definition extensionsReceived :: "call list \<Rightarrow> nat" where
  "extensionsReceived calls = length (filter windowExtensionCall calls)"











section \<open>An example channel\<close>

text \<open>
  A concrete instance of the external collaborators and a channel of capacity 1000 with
  settled balances 500 and 500, on which the operations are run below.
\<close>

definition exampleHash :: "bytes \<Rightarrow> bytes" where
  "exampleHash b = map (\<lambda>x. x + 1) b"

text \<open>
  Modelled from the spec: the elkrem receiver of package elkrem, which is not among the
  sources.  ``Receiver: starts empty; \<open>add_next(p)\<close> verifies that \<open>p\<close> is consistent with
  previously added pre-images and appends; fails with \<open>ElkremMismatch\<close> on
  inconsistency.''  The consistency test is a parameter.
\<close>

definition specElkremAddNext ::
  "(ElkremReceiver \<Rightarrow> bytes \<Rightarrow> bool) \<Rightarrow> ElkremReceiver \<Rightarrow> bytes
     \<Rightarrow> lib_error + ElkremReceiver" where
  "specElkremAddNext consistent receiver p =
     (if consistent receiver p then Inr (receiver @ [p]) else Inl ''ElkremMismatch'')"

definition exampleEnv :: env where
  "exampleEnv =
     \<lparr>sha256 = exampleHash,
      commitScriptToSelf = (\<lambda>csv selfKey revokeKey. Inr (1 # selfKey @ revokeKey)),
      commitScriptUnencumbered = (\<lambda>key. Inr (2 # key)),
      witnessScriptHash = (\<lambda>script. Inr (3 # script)),
      senderHTLCScript = (\<lambda>timeout delay k1 k2 revocation rhash. Inr (4 # rhash)),
      receiverHTLCScript = (\<lambda>timeout delay k1 k2 revocation rhash. Inr (5 # rhash)),
      encodeCcInstructions = (\<lambda>insts. Inr (map (\<lambda>i. ucast (Output i)) insts)),
      rawTxInWitnessSignature = (\<lambda>tx amt script key. Inr (6 # key)),
      calcWitnessSigHash = (\<lambda>script tx amt. Inr [7]),
      parseSignature = (\<lambda>raw. Inr raw),
      verifySignature = (\<lambda>sg h key. True),
      txSha = (\<lambda>tx. [8]),
      pubKeyOf = (\<lambda>priv. 9 # priv),
      deriveRevocationPubkey = (\<lambda>key preimage. 9 # 10 # preimage),
      deriveRevocationPrivKey = (\<lambda>key preimage. 10 # preimage),
      elkremAtIndex = (\<lambda>root i. Inr (ucast i # root)),
      elkremAddNext =
        specElkremAddNext (\<lambda>receiver p. receiver = [] \<or> exampleHash p = last receiver),
      fullSync = (\<lambda>cs. None),
      syncRevocation = (\<lambda>cs. None)\<rparr>"

definition exampleState :: OpenChannel where
  "exampleState =
     \<lparr>ChanID = \<lparr>Hash = [1], OutIndex = 0\<rparr>, Capacity = 1000,
      OurBalance = 500, TheirBalance = 500, OurCommitTx = None, OurCommitSig = [],
      OurCommitKey = [11], TheirCommitKey = [12], OurMultiSigKey = [13],
      TheirMultiSigKey = [14], FundingOutpoint = \<lparr>Hash = [1], OutIndex = 0\<rparr>,
      FundingRedeemScript = [15], LocalElkrem = [16], RemoteElkrem = [],
      TheirCurrentRevocation = 9 # 10 # replicate 32 17,
      TheirCurrentRevocationHash = zeroHash,
      LocalCsvDelay = 144, RemoteCsvDelay = 144, OurDeliveryScript = [18],
      TheirDeliveryScript = [19], NumUpdates = 0\<rparr>"

definition initialCommitment :: commitment where
  "initialCommitment =
     \<lparr>height = 0, ourMessageIndex = 0, theirMessageIndex = 0, txn = None, sig = [],
      ourBalance = 500, theirBalance = 500\<rparr>"

text \<open>The channel that \<open>NewLightningChannel\<close> builds from \<open>exampleState\<close>.\<close>

definition exampleChannel :: LightningChannel where
  "exampleChannel =
     \<lparr>ourLogCounter = 0, theirLogCounter = 0, status = channelPending,
      currentHeight = 0, revocationWindowEdge = 0,
      usedRevocations = [], revocationWindow = [],
      remoteCommitChain = \<lparr>commitments = [initialCommitment], startingHeight = 0\<rparr>,
      localCommitChain = \<lparr>commitments = [initialCommitment], startingHeight = 0\<rparr>,
      channelState = exampleState,
      ourUpdateLog = [], theirUpdateLog = [],
      ourLogIndex = Map.empty, theirLogIndex = Map.empty,
      fundingTxIn = NewTxIn \<lparr>Hash = [1], OutIndex = 0\<rparr>,
      fundingP2WSH = [3, 15],
      descriptors = (\<lambda>a. newDescriptor Add [] 0 0 0 0), nextAddr = 0\<rparr>"

text \<open>A revocation with a zero pre-image, which extends the revocation window.\<close>

definition windowExtension :: CommitRevocation where
  "windowExtension =
     \<lparr>ChannelPoint = \<lparr>Hash = [1], OutIndex = 0\<rparr>, Revocation = zeroHash,
      NextRevocationKey = [20], NextRevocationHash = replicate 32 21\<rparr>"

text \<open>An HTLC of 100 whose payment hash is \<open>exampleHash\<close> of the pre-image
  \<open>replicate 32 42\<close>.\<close>

definition exampleHTLC :: HTLCAddRequest where
  "exampleHTLC = \<lparr>RedemptionHashes = [replicate 32 43], Expiry = 600, ReqAmount = 100\<rparr>"

text \<open>The channel after a window extension and \<open>ReceiveHTLC exampleHTLC\<close>.\<close>

definition htlcReceived :: LightningChannel where
  "htlcReceived =
     exampleChannel
       \<lparr>theirLogCounter := 1,
        revocationWindow := [windowExtension],
        theirUpdateLog := [0],
        theirLogIndex := [0 \<mapsto> 0],
        descriptors := (descriptors exampleChannel)
           (0 := newDescriptor Add (replicate 32 43) 600 100 0 0),
        nextAddr := 1\<rparr>"

text \<open>The same channel after \<open>SettleHTLC\<close> with the pre-image: their Add is settled by
  an entry of our log before either has entered a commitment.\<close>

definition settledUncommitted :: LightningChannel where
  "settledUncommitted =
     exampleChannel
       \<lparr>ourLogCounter := 1, theirLogCounter := 1,
        revocationWindow := [windowExtension],
        ourUpdateLog := [1], theirUpdateLog := [0],
        theirLogIndex := [0 \<mapsto> 0],
        descriptors := (descriptors exampleChannel)
           (0 := (newDescriptor Add (replicate 32 43) 600 100 0 0)\<lparr>settled := True\<rparr>,
            1 := newDescriptor Settle [] 0 100 0 0),
        nextAddr := 2\<rparr>"

text \<open>A revocation whose pre-image does not open the stored revocation key, and one
  whose pre-image does.\<close>

definition replayedRevocation :: CommitRevocation where
  "replayedRevocation =
     \<lparr>ChannelPoint = \<lparr>Hash = [1], OutIndex = 0\<rparr>, Revocation = replicate 32 99,
      NextRevocationKey = [22], NextRevocationHash = replicate 32 23\<rparr>"

definition validRevocation :: CommitRevocation where
  "validRevocation =
     \<lparr>ChannelPoint = \<lparr>Hash = [1], OutIndex = 0\<rparr>, Revocation = replicate 32 17,
      NextRevocationKey = [24], NextRevocationHash = replicate 32 25\<rparr>"

text \<open>The example collaborators with a persistence layer whose \<open>SyncRevocation\<close> fails.\<close>

definition failingSyncEnv :: env where
  "failingSyncEnv = exampleEnv\<lparr>syncRevocation := (\<lambda>cs. Some ''sync failed'')\<rparr>"

text \<open>A coin of the given asset, value and output index.\<close>

definition coinOf :: "string \<Rightarrow> Amount \<Rightarrow> 32 word \<Rightarrow> Utxo" where
  "coinOf assetId v i =
     \<lparr>UtxoValue = 0, ColorData = Some \<lparr>AssetId = assetId, TxoValue = v\<rparr>,
      UtxoOutPoint = \<lparr>Hash = [1], OutIndex = i\<rparr>\<rparr>"

text \<open>The settled channel once the Add is in both chains at height 2 and the Settle at
  height 3.\<close>

definition settledCommitted :: LightningChannel where
  "settledCommitted =
     settledUncommitted
       \<lparr>descriptors := (descriptors settledUncommitted)
          (0 := (newDescriptor Add (replicate 32 43) 600 100 0 0)
                  \<lparr>settled := True, addCommitHeightRemote := 2, addCommitHeightLocal := 2\<rparr>,
           1 := (newDescriptor Settle [] 0 100 0 0)
                  \<lparr>removeCommitHeightRemote := 3, removeCommitHeightLocal := 3\<rparr>)\<rparr>"

section \<open>Verification\<close>

subsection \<open>Colorified transactions\<close>

lemma colorifyOuts_False:
  "colorifyOuts False i outs =
     (map (\<lambda>(k, out). \<lparr>Skip = False, Range = False, Percent = False,
                        Output = of_nat k, CcAmount = Value out\<rparr>) (enumerate i outs),
      map (\<lambda>out. \<lparr>Value = 546, PkScript = PkScript out\<rparr>) outs)"
  by (induction outs arbitrary: i) (simp_all add: NewTxOut_def dustAmount_def)

lemma fold_AddTxIn: "fold AddTxIn xs tx = tx\<lparr>TxIns := TxIns tx @ xs\<rparr>"
  by (induction xs arbitrary: tx) (simp_all add: AddTxIn_def)

lemma fold_AddTxOut: "fold AddTxOut xs tx = tx\<lparr>TxOuts := TxOuts tx @ xs\<rparr>"
  by (induction xs arbitrary: tx) (simp_all add: AddTxOut_def)

lemma ColorifyTx_False_eq:
  "ColorifyTx encode tx False =
     (case encode (ccInstructions (TxOuts tx)) of
        Inl e \<Rightarrow> Inl e
      | Inr payload \<Rightarrow>
          Inr \<lparr>Version = Version tx, TxIns = TxIns tx,
               TxOuts = map (\<lambda>out. \<lparr>Value = 546, PkScript = PkScript out\<rparr>) (TxOuts tx)
                        @ [\<lparr>Value = 0, PkScript = OP_RETURN # WriteVarBytes payload\<rparr>],
               LockTime = 0\<rparr>)"
  by (simp add: ColorifyTx_def colorifyOuts_False fold_AddTxIn fold_AddTxOut NewMsgTx_def
      AddTxOut_def NewTxOut_def ccInstructions_def split: sum.splits)

subsection \<open>Inversion of \<open>fetchCommitmentView\<close>\<close>

lemma fetchCommitmentView_Inr:
  assumes "fetchCommitmentView e lc rc oi ti rk rh = Some (Inr c, lc')"
  shows "\<exists>t view ob tb tx0 colored.
           tip (if rc then remoteCommitChain lc else localCommitChain lc) = Some t
         \<and> evaluateHTLCView lc (fetchHTLCView lc ti oi) (ourBalance t) (theirBalance t)
               (height t + 1) rc = Some (view, ob, tb, lc')
         \<and> ColorifyTx (encodeCcInstructions e) tx0 False = Inr colored
         \<and> c = \<lparr>height = height t + 1, ourMessageIndex = oi, theirMessageIndex = ti,
                 txn = Some colored, sig = [], ourBalance = ob, theirBalance = tb\<rparr>"
  using assms unfolding fetchCommitmentView_def Let_def
  by (auto split: option.splits sum.splits prod.splits)


lemma fetchCommitmentView_state:
  assumes "fetchCommitmentView e lc rc oi ti rk rh = Some (r, lc')"
  shows "\<exists>h. lc' = lc\<lparr>descriptors := h\<rparr>"
  using assms unfolding fetchCommitmentView_def Let_def evaluateHTLCView_def
  by (auto split: option.splits sum.splits prod.splits)

subsection \<open>The example channel\<close>

lemma NewLightningChannel_example:
  "NewLightningChannel exampleEnv exampleState = Inr exampleChannel"
  by (simp add: exampleChannel_def NewLightningChannel_def exampleEnv_def exampleState_def
      initialCommitment_def addCommitment_def newCommitmentChain_def Let_def)

lemma exampleChannel_fields:
  "revocationWindow exampleChannel = []"
  "usedRevocations exampleChannel = []"
  "ourLogCounter exampleChannel = 0"
  "theirLogCounter exampleChannel = 0"
  "ourUpdateLog exampleChannel = []"
  "theirUpdateLog exampleChannel = []"
  "theirLogIndex exampleChannel = Map.empty"
  "ourLogIndex exampleChannel = Map.empty"
  "nextAddr exampleChannel = 0"
  "status exampleChannel = channelPending"
  "channelState exampleChannel = exampleState"
  "commitments (remoteCommitChain exampleChannel) = [initialCommitment]"
  "commitments (localCommitChain exampleChannel) = [initialCommitment]"
  "fundingTxIn exampleChannel = NewTxIn \<lparr>Hash = [1], OutIndex = 0\<rparr>"
  by (simp_all add: exampleChannel_def)

lemma fetchCommitmentView_example:
  "fetchCommitmentView exampleEnv exampleChannel True 0 0 [20] (replicate 32 21) =
     Some (Inr \<lparr>height = 1, ourMessageIndex = 0, theirMessageIndex = 0,
                txn = Some \<lparr>Version = 2, TxIns = [NewTxIn \<lparr>Hash = [1], OutIndex = 0\<rparr>],
                  TxOuts = [\<lparr>Value = 546, PkScript = [2, 9, 11]\<rparr>,
                            \<lparr>Value = 546, PkScript = [3, 1, 12, 20]\<rparr>,
                            \<lparr>Value = 0, PkScript = OP_RETURN # WriteVarBytes [0, 1]\<rparr>],
                  LockTime = 0\<rparr>,
                sig = [], ourBalance = 500, theirBalance = 500\<rparr>, exampleChannel)"
  by (simp add: fetchCommitmentView_def tip_def exampleChannel_fields initialCommitment_def
      fetchHTLCView_def evaluateHTLCView_def ourUpdates_def theirUpdates_def exampleState_def
      createCommitTx_def exampleEnv_def NewMsgTx_def AddTxIn_def AddTxOut_def NewTxOut_def
      InPlaceSort_def txOutKey_def txInKey_def ColorifyTx_def Let_def dustAmount_def
      exampleChannel_def)

lemma createCooperativeCloseTx_example:
  "createCooperativeCloseTx exampleEnv (NewTxIn \<lparr>Hash = [1], OutIndex = 0\<rparr>) 500 500
       [18] [19] True =
     Some \<lparr>Version = 1, TxIns = [NewTxIn \<lparr>Hash = [1], OutIndex = 0\<rparr>],
           TxOuts = [\<lparr>Value = 546, PkScript = [18]\<rparr>, \<lparr>Value = 546, PkScript = [19]\<rparr>,
                     \<lparr>Value = 0, PkScript = OP_RETURN # WriteVarBytes [0, 1]\<rparr>],
           LockTime = 0\<rparr>"
  by (simp add: createCooperativeCloseTx_def exampleEnv_def NewMsgTx_def AddTxIn_def
      AddTxOut_def NewTxOut_def InPlaceSort_def txOutKey_def txInKey_def ColorifyTx_def
      Let_def dustAmount_def)

subsection \<open>C6: first-commit height recording\<close>

text \<open>
  Claim C6.  When a view is evaluated at \<open>nextHeight\<close> for a chain, \<open>processAddEntry\<close>
  sets the entry's add height for that chain to \<open>nextHeight\<close>, and debits the sender,
  only if that height is zero; \<open>processRemoveEntry\<close> does the same with the remove
  height and the credit.  An entry whose height is already non-zero is returned
  unchanged, with both balances unchanged.
\<close>

theorem first_commit_height_recording:
  "(addHeightOn rc htlc \<noteq> 0 \<longrightarrow>
      processAddEntry htlc ob tb nh rc inc = (htlc, ob, tb))
   \<and> (addHeightOn rc htlc = 0 \<longrightarrow>
      processAddEntry htlc ob tb nh rc inc =
        (setAddHeightOn rc nh htlc,
         if inc then ob else ob - Amount htlc,
         if inc then tb - Amount htlc else tb))
   \<and> (removeHeightOn rc htlc \<noteq> 0 \<longrightarrow>
      processRemoveEntry htlc ob tb nh rc inc = (htlc, ob, tb))
   \<and> (removeHeightOn rc htlc = 0 \<longrightarrow>
      processRemoveEntry htlc ob tb nh rc inc =
        (setRemoveHeightOn rc nh htlc,
         if (inc \<and> EntryType htlc = Settle) \<or> (\<not> inc \<and> EntryType htlc = Timeout)
           then ob + Amount htlc else ob,
         if (inc \<and> EntryType htlc = Timeout) \<or> (\<not> inc \<and> EntryType htlc = Settle)
           then tb + Amount htlc else tb))"
  by (simp add: processAddEntry_def processRemoveEntry_def addHeightOn_def removeHeightOn_def
      setAddHeightOn_def setRemoveHeightOn_def Let_def)

theorem first_commit_height_recording_witness:
  "processAddEntry (newDescriptor Add (replicate 32 43) 600 100 0 0) 500 500 7 True False =
     ((newDescriptor Add (replicate 32 43) 600 100 0 0)\<lparr>addCommitHeightRemote := 7\<rparr>, 400, 500)
   \<and> processAddEntry ((newDescriptor Add (replicate 32 43) 600 100 0 0)\<lparr>addCommitHeightRemote := 7\<rparr>)
        400 500 8 True False =
     ((newDescriptor Add (replicate 32 43) 600 100 0 0)\<lparr>addCommitHeightRemote := 7\<rparr>, 400, 500)
   \<and> processRemoveEntry (newDescriptor Settle [] 0 100 0 0) 400 500 8 False False =
     ((newDescriptor Settle [] 0 100 0 0)\<lparr>removeCommitHeightLocal := 8\<rparr>, 400, 600)
   \<and> processRemoveEntry ((newDescriptor Settle [] 0 100 0 0)\<lparr>removeCommitHeightLocal := 8\<rparr>)
        400 600 9 False False =
     ((newDescriptor Settle [] 0 100 0 0)\<lparr>removeCommitHeightLocal := 8\<rparr>, 400, 600)"
  using
    first_commit_height_recording [of True "newDescriptor Add (replicate 32 43) 600 100 0 0" 500 500 7 False]
    first_commit_height_recording
      [of True "(newDescriptor Add (replicate 32 43) 600 100 0 0)\<lparr>addCommitHeightRemote := 7\<rparr>"
          400 500 8 False]
    first_commit_height_recording [of False "newDescriptor Settle [] 0 100 0 0" 400 500 8 False]
    first_commit_height_recording
      [of False "(newDescriptor Settle [] 0 100 0 0)\<lparr>removeCommitHeightLocal := 8\<rparr>"
          400 600 9 False]
  by (simp add: addHeightOn_def removeHeightOn_def setAddHeightOn_def setRemoveHeightOn_def
      newDescriptor_def)

subsection \<open>C10: shape of a colorified transaction\<close>

text \<open>
  Claim C10.  \<open>ColorifyTx\<close> with \<open>isFunding = false\<close>, when it returns a transaction,
  keeps the version and the inputs, keeps the scripts of the \<open>n\<close> outputs in their order
  with every value replaced by the dust amount 546, and appends one zero-value output
  whose script is \<open>OP_RETURN\<close> followed by the encoded instructions, which carry the
  original values.  Hence every output but the last of a commitment transaction built by
  \<open>fetchCommitmentView\<close>, and of a close transaction built by
  \<open>createCooperativeCloseTx\<close>, has value 546 and the last has value 0, whatever the
  balances are.
\<close>

theorem colorified_transaction_shape:
  "(ColorifyTx encode tx False = Inr colored \<longrightarrow>
      Version colored = Version tx \<and> TxIns colored = TxIns tx
      \<and> length (TxOuts colored) = Suc (length (TxOuts tx))
      \<and> map PkScript (butlast (TxOuts colored)) = map PkScript (TxOuts tx)
      \<and> (\<forall>out \<in> set (butlast (TxOuts colored)). Value out = 546)
      \<and> (\<exists>payload. encode (ccInstructions (TxOuts tx)) = Inr payload
            \<and> last (TxOuts colored) =
                \<lparr>Value = 0, PkScript = OP_RETURN # WriteVarBytes payload\<rparr>))
   \<and> (fetchCommitmentView e lc rc oi ti rk rh = Some (Inr c, lc') \<longrightarrow>
        (\<exists>commitTx. txn c = Some commitTx
           \<and> (\<forall>out \<in> set (butlast (TxOuts commitTx)). Value out = 546)
           \<and> Value (last (TxOuts commitTx)) = 0))
   \<and> (createCooperativeCloseTx e fundingIn ob tb ourScript theirScript initiator = Some closeTx
        \<longrightarrow> (\<forall>out \<in> set (butlast (TxOuts closeTx)). Value out = 546)
           \<and> Value (last (TxOuts closeTx)) = 0)"
proof -
  have 1: "Version colored = Version tx \<and> TxIns colored = TxIns tx
      \<and> length (TxOuts colored) = Suc (length (TxOuts tx))
      \<and> map PkScript (butlast (TxOuts colored)) = map PkScript (TxOuts tx)
      \<and> (\<forall>out \<in> set (butlast (TxOuts colored)). Value out = 546)
      \<and> (\<exists>payload. encode (ccInstructions (TxOuts tx)) = Inr payload
            \<and> last (TxOuts colored) =
                \<lparr>Value = 0, PkScript = OP_RETURN # WriteVarBytes payload\<rparr>)"
    if "ColorifyTx encode tx False = Inr colored"
  proof -
    from that obtain payload where p: "encode (ccInstructions (TxOuts tx)) = Inr payload"
      and c: "colored = \<lparr>Version = Version tx, TxIns = TxIns tx,
               TxOuts = map (\<lambda>out. \<lparr>Value = 546, PkScript = PkScript out\<rparr>) (TxOuts tx)
                        @ [\<lparr>Value = 0, PkScript = OP_RETURN # WriteVarBytes payload\<rparr>],
               LockTime = 0\<rparr>"
      by (auto simp: ColorifyTx_False_eq split: sum.splits)
    show ?thesis using p by (auto simp: c comp_def)
  qed
  have 2: "\<exists>commitTx. txn c = Some commitTx
           \<and> (\<forall>out \<in> set (butlast (TxOuts commitTx)). Value out = 546)
           \<and> Value (last (TxOuts commitTx)) = 0"
    if "fetchCommitmentView e lc rc oi ti rk rh = Some (Inr c, lc')"
  proof -
    from that obtain tx0 commitTx where
      "ColorifyTx (encodeCcInstructions e) tx0 False = Inr commitTx" "txn c = Some commitTx"
      by (auto dest!: fetchCommitmentView_Inr)
    then show ?thesis
      by (auto simp: ColorifyTx_False_eq split: sum.splits)
  qed
  have 3: "(\<forall>out \<in> set (butlast (TxOuts closeTx)). Value out = 546)
           \<and> Value (last (TxOuts closeTx)) = 0"
    if "createCooperativeCloseTx e fundingIn ob tb ourScript theirScript initiator
            = Some closeTx"
  proof -
    from that obtain tx0 where "ColorifyTx (encodeCcInstructions e) tx0 False = Inr closeTx"
      by (auto simp: createCooperativeCloseTx_def Let_def split: sum.splits)
    then show ?thesis
      by (auto simp: ColorifyTx_False_eq split: sum.splits)
  qed
  from 1 2 3 show ?thesis by blast
qed

theorem colorified_transaction_shape_witness:
  "ColorifyTx (\<lambda>insts. Inr (map (\<lambda>i. ucast (CcAmount i)) insts))
      \<lparr>Version = 2, TxIns = [NewTxIn \<lparr>Hash = [1], OutIndex = 0\<rparr>],
       TxOuts = [\<lparr>Value = 40, PkScript = [18]\<rparr>, \<lparr>Value = 60, PkScript = [19]\<rparr>],
       LockTime = 0\<rparr> False
    = Inr \<lparr>Version = 2, TxIns = [NewTxIn \<lparr>Hash = [1], OutIndex = 0\<rparr>],
           TxOuts = [\<lparr>Value = 546, PkScript = [18]\<rparr>, \<lparr>Value = 546, PkScript = [19]\<rparr>,
                     \<lparr>Value = 0, PkScript = OP_RETURN # WriteVarBytes [40, 60]\<rparr>],
           LockTime = 0\<rparr>
   \<and> (\<exists>c lc' commitTx.
         fetchCommitmentView exampleEnv exampleChannel True 0 0 [20] (replicate 32 21) = Some (Inr c, lc')
         \<and> txn c = Some commitTx \<and> map Value (TxOuts commitTx) = [546, 546, 0])
   \<and> (\<exists>closeTx.
         createCooperativeCloseTx exampleEnv (NewTxIn \<lparr>Hash = [1], OutIndex = 0\<rparr>) 500 500
           [18] [19] True = Some closeTx
         \<and> map Value (TxOuts closeTx) = [546, 546, 0])"
proof -
  let ?enc = "\<lambda>insts. Inr (map (\<lambda>i. ucast (CcAmount i)) insts)
                :: lib_error + bytes"
  let ?tx = "\<lparr>Version = 2, TxIns = [NewTxIn \<lparr>Hash = [1], OutIndex = 0\<rparr>],
       TxOuts = [\<lparr>Value = 40, PkScript = [18]\<rparr>, \<lparr>Value = 60, PkScript = [19]\<rparr>],
       LockTime = 0\<rparr>"
  let ?colored = "\<lparr>Version = 2, TxIns = [NewTxIn \<lparr>Hash = [1], OutIndex = 0\<rparr>],
           TxOuts = [\<lparr>Value = 546, PkScript = [18]\<rparr>, \<lparr>Value = 546, PkScript = [19]\<rparr>,
                     \<lparr>Value = 0, PkScript = OP_RETURN # WriteVarBytes [40, 60]\<rparr>],
           LockTime = 0\<rparr>"
  have a: "ColorifyTx ?enc ?tx False = Inr ?colored"
    by (simp add: ColorifyTx_False_eq ccInstructions_def)
  from a fetchCommitmentView_example createCooperativeCloseTx_example
    colorified_transaction_shape [where encode = ?enc and tx = ?tx and colored = ?colored
      and e = exampleEnv and lc = exampleChannel and rc = True and oi = 0 and ti = 0
      and rk = "[20]" and rh = "replicate 32 21" and lc' = exampleChannel
      and fundingIn = "NewTxIn \<lparr>Hash = [1], OutIndex = 0\<rparr>" and ob = 500 and tb = 500
      and ourScript = "[18]" and theirScript = "[19]" and initiator = True]
  show ?thesis
    by simp
qed

lemma htlcReceived_fields:
  "revocationWindow htlcReceived = [windowExtension]"
  "usedRevocations htlcReceived = []"
  "ourLogCounter htlcReceived = 0"
  "theirLogCounter htlcReceived = 1"
  "ourUpdateLog htlcReceived = []"
  "theirUpdateLog htlcReceived = [0]"
  "theirLogIndex htlcReceived = [0 \<mapsto> 0]"
  "ourLogIndex htlcReceived = Map.empty"
  "nextAddr htlcReceived = Suc 0"
  "channelState htlcReceived = exampleState"
  "commitments (remoteCommitChain htlcReceived) = [initialCommitment]"
  "fundingTxIn htlcReceived = NewTxIn \<lparr>Hash = [1], OutIndex = 0\<rparr>"
  "descriptors htlcReceived 0 = newDescriptor Add (replicate 32 43) 600 100 0 0"
  by (simp_all add: htlcReceived_def exampleChannel_def)

lemma settledUncommitted_fields:
  "revocationWindow settledUncommitted = [windowExtension]"
  "usedRevocations settledUncommitted = []"
  "ourLogCounter settledUncommitted = 1"
  "theirLogCounter settledUncommitted = 1"
  "ourUpdateLog settledUncommitted = [Suc 0]"
  "theirUpdateLog settledUncommitted = [0]"
  "theirLogIndex settledUncommitted = [0 \<mapsto> 0]"
  "ourLogIndex settledUncommitted = Map.empty"
  "channelState settledUncommitted = exampleState"
  "commitments (remoteCommitChain settledUncommitted) = [initialCommitment]"
  "fundingTxIn settledUncommitted = NewTxIn \<lparr>Hash = [1], OutIndex = 0\<rparr>"
  "descriptors settledUncommitted 0 =
     (newDescriptor Add (replicate 32 43) 600 100 0 0)\<lparr>settled := True\<rparr>"
  "descriptors settledUncommitted (Suc 0) = newDescriptor Settle [] 0 100 0 0"
  by (simp_all add: settledUncommitted_def exampleChannel_def)

lemma htlcReceived_reachable:
  "run exampleEnv [CallReceiveRevocation windowExtension, CallReceiveHTLC exampleHTLC]
     exampleChannel = Some htlcReceived"
  by (simp add: ReceiveRevocation_def ReceiveHTLC_def htlcReceived_def
      exampleChannel_def windowExtension_def exampleHTLC_def Let_def newDescriptor_def)

lemma SettleHTLC_example:
  "SettleHTLC exampleEnv htlcReceived (replicate 32 42) = (Inr 0, settledUncommitted)"
  by (simp add: SettleHTLC_def htlcReceived_fields Let_def exampleEnv_def exampleHash_def
      newDescriptor_def)
     (simp add: htlcReceived_def settledUncommitted_def exampleChannel_def newDescriptor_def
        fun_upd_twist)

lemmas example_eval =
  InitialRevocationWindow_def windowExtension_def fetchCommitmentView_def tip_def
  initialCommitment_def fetchHTLCView_def evaluateHTLCView_def ourUpdates_def theirUpdates_def
  exampleState_def createCommitTx_def exampleEnv_def NewMsgTx_def AddTxIn_def AddTxOut_def
  NewTxOut_def InPlaceSort_def txOutKey_def txInKey_def ColorifyTx_def Let_def dustAmount_def
  newDescriptor_def processAddEntry_def processRemoveEntry_def addHTLC_def addCommitment_def

lemma SignNextCommitment_htlcReceived:
  "SignNextCommitment exampleEnv htlcReceived =
     Some (Inr ([6, 13], 1),
       htlcReceived
       \<lparr>descriptors :=
          (descriptors htlcReceived)
          (0 := (newDescriptor Add (replicate 32 43) 600 100 0 0)\<lparr>addCommitHeightRemote := 1\<rparr>),
        remoteCommitChain :=
          remoteCommitChain htlcReceived
          \<lparr>commitments :=
             [initialCommitment,
              \<lparr>height = 1, ourMessageIndex = 0, theirMessageIndex = 1,
               txn = Some \<lparr>Version = 2, TxIns = [NewTxIn \<lparr>Hash = [1], OutIndex = 0\<rparr>],
                   TxOuts = [\<lparr>Value = 546, PkScript = 3 # 4 # replicate 32 43\<rparr>,
                             \<lparr>Value = 546, PkScript = [3, 1, 12, 20]\<rparr>,
                             \<lparr>Value = 546, PkScript = [2, 9, 11]\<rparr>,
                             \<lparr>Value = 0, PkScript = OP_RETURN # WriteVarBytes [0, 1, 2]\<rparr>],
                   LockTime = 0\<rparr>,
               sig = [], ourBalance = 500, theirBalance = 400\<rparr>]\<rparr>,
        usedRevocations := [windowExtension],
        revocationWindow := []\<rparr>)"
  by (simp add: SignNextCommitment_def htlcReceived_fields example_eval)

lemma SignNextCommitment_settledUncommitted:
  "SignNextCommitment exampleEnv settledUncommitted =
     Some (Inr ([6, 13], 1),
       settledUncommitted
       \<lparr>descriptors :=
          (descriptors settledUncommitted)
          (Suc 0 := (newDescriptor Settle [] 0 100 0 0)\<lparr>removeCommitHeightRemote := 1\<rparr>),
        remoteCommitChain :=
          remoteCommitChain settledUncommitted
          \<lparr>commitments :=
             [initialCommitment,
              \<lparr>height = 1, ourMessageIndex = 1, theirMessageIndex = 1,
               txn = Some \<lparr>Version = 2, TxIns = [NewTxIn \<lparr>Hash = [1], OutIndex = 0\<rparr>],
                   TxOuts = [\<lparr>Value = 546, PkScript = [3, 1, 12, 20]\<rparr>,
                             \<lparr>Value = 546, PkScript = [2, 9, 11]\<rparr>,
                             \<lparr>Value = 0, PkScript = OP_RETURN # WriteVarBytes [0, 1]\<rparr>],
                   LockTime = 0\<rparr>,
               sig = [], ourBalance = 600, theirBalance = 500\<rparr>]\<rparr>,
        usedRevocations := [windowExtension],
        revocationWindow := []\<rparr>)"
  by (simp add: SignNextCommitment_def settledUncommitted_fields example_eval)

subsection \<open>C7: the contract of \<open>SettleHTLC\<close>\<close>


lemma settleScan_None:
  "settleScan h ph log = None \<longleftrightarrow> (\<forall>a \<in> set log. \<not> settleCandidate h ph a)"
  by (induction log) (auto simp: settleCandidate_def)

lemma settleScan_Some:
  "settleScan h ph log = Some t \<longleftrightarrow>
     (\<exists>pre post. log = pre @ t # post \<and> settleCandidate h ph t
        \<and> (\<forall>a \<in> set pre. \<not> settleCandidate h ph a))"
proof (induction log)
  case Nil
  then show ?case by simp
next
  case (Cons a log)
  show ?case
  proof (cases "settleCandidate h ph a")
    case True
    then have "settleScan h ph (a # log) = Some a"
      by (simp add: settleCandidate_def)
    moreover have "(\<exists>pre post. a # log = pre @ t # post \<and> settleCandidate h ph t
        \<and> (\<forall>x \<in> set pre. \<not> settleCandidate h ph x)) \<longleftrightarrow> t = a"
    proof
      assume "\<exists>pre post. a # log = pre @ t # post \<and> settleCandidate h ph t
        \<and> (\<forall>x \<in> set pre. \<not> settleCandidate h ph x)"
      then obtain pre post where *: "a # log = pre @ t # post"
        "\<forall>x \<in> set pre. \<not> settleCandidate h ph x" by blast
      show "t = a"
      proof (cases pre)
        case Nil
        with * show ?thesis by simp
      next
        case (Cons p ps)
        with * True show ?thesis by auto
      qed
    next
      assume "t = a"
      with True show "\<exists>pre post. a # log = pre @ t # post \<and> settleCandidate h ph t
        \<and> (\<forall>x \<in> set pre. \<not> settleCandidate h ph x)"
        by (intro exI [of _ "[]"] exI [of _ log]) simp
    qed
    ultimately show ?thesis by auto
  next
    case False
    then have s: "settleScan h ph (a # log) = settleScan h ph log"
      by (auto simp: settleCandidate_def)
    have "(\<exists>pre post. a # log = pre @ t # post \<and> settleCandidate h ph t
        \<and> (\<forall>x \<in> set pre. \<not> settleCandidate h ph x)) \<longleftrightarrow>
      (\<exists>pre post. log = pre @ t # post \<and> settleCandidate h ph t
        \<and> (\<forall>x \<in> set pre. \<not> settleCandidate h ph x))" (is "?L \<longleftrightarrow> ?R")
    proof
      assume ?L
      then obtain pre post where *: "a # log = pre @ t # post" "settleCandidate h ph t"
        "\<forall>x \<in> set pre. \<not> settleCandidate h ph x" by blast
      show ?R
      proof (cases pre)
        case Nil
        with * False show ?thesis by simp
      next
        case (Cons p ps)
        with * show ?thesis by auto
      qed
    next
      assume ?R
      then obtain pre post where *: "log = pre @ t # post" "settleCandidate h ph t"
        "\<forall>x \<in> set pre. \<not> settleCandidate h ph x" by blast
      with False show ?L
        by (intro exI [of _ "a # pre"] exI [of _ post]) simp
    qed
    with s Cons.IH show ?thesis by simp
  qed
qed

text \<open>
  Claim C7.  For every pre-image: if their log holds an Add entry that is not settled
  and whose payment hash is the hash of the pre-image, \<open>SettleHTLC\<close> marks the first
  such entry, in log order, as settled, appends to our log a Settle entry whose
  \<open>ParentIndex\<close> is that entry's \<open>Index\<close> and whose \<open>Index\<close> is the current value of our
  log counter, increments the counter, and returns the parent's \<open>Index\<close>.  If there is
  no such entry it returns the invalid-payment-hash error and leaves the channel, and
  so both logs, unchanged.  The assumption states that the addresses of their log were
  handed out by the allocator, so that the new entry is a fresh object.
\<close>

theorem settle_htlc_contract:
  assumes fresh: "\<forall>a \<in> set (theirUpdateLog lc). a < nextAddr lc"
  shows
  "((\<exists>a \<in> set (theirUpdateLog lc). settleCandidate (descriptors lc) (sha256 e preimage) a) \<longrightarrow>
      (\<exists>pre target post lc'.
          theirUpdateLog lc = pre @ target # post
        \<and> settleCandidate (descriptors lc) (sha256 e preimage) target
        \<and> (\<forall>a \<in> set pre. \<not> settleCandidate (descriptors lc) (sha256 e preimage) a)
        \<and> SettleHTLC e lc preimage = (Inr (Index (descriptors lc target)), lc')
        \<and> descriptors lc' target = (descriptors lc target)\<lparr>settled := True\<rparr>
        \<and> ourUpdateLog lc' = ourUpdateLog lc @ [nextAddr lc]
        \<and> EntryType (descriptors lc' (nextAddr lc)) = Settle
        \<and> ParentIndex (descriptors lc' (nextAddr lc)) = Index (descriptors lc target)
        \<and> Index (descriptors lc' (nextAddr lc)) = ourLogCounter lc
        \<and> Amount (descriptors lc' (nextAddr lc)) = Amount (descriptors lc target)
        \<and> ourLogCounter lc' = ourLogCounter lc + 1
        \<and> theirUpdateLog lc' = theirUpdateLog lc
        \<and> (\<forall>a. a \<noteq> target \<and> a \<noteq> nextAddr lc \<longrightarrow> descriptors lc' a = descriptors lc a)))
   \<and> ((\<forall>a \<in> set (theirUpdateLog lc).
          \<not> settleCandidate (descriptors lc) (sha256 e preimage) a) \<longrightarrow>
        SettleHTLC e lc preimage = (Inl ErrInvalidPaymentHash, lc))"
proof (intro conjI impI)
  assume "\<exists>a \<in> set (theirUpdateLog lc). settleCandidate (descriptors lc) (sha256 e preimage) a"
  then have "settleScan (descriptors lc) (sha256 e preimage) (theirUpdateLog lc) \<noteq> None"
    by (simp add: settleScan_None)
  then obtain target where
    t: "settleScan (descriptors lc) (sha256 e preimage) (theirUpdateLog lc) = Some target"
    by blast
  then obtain pre post where
    pp: "theirUpdateLog lc = pre @ target # post"
        "settleCandidate (descriptors lc) (sha256 e preimage) target"
        "\<forall>a \<in> set pre. \<not> settleCandidate (descriptors lc) (sha256 e preimage) a"
    unfolding settleScan_Some by blast
  from pp(1) fresh have ne: "target \<noteq> nextAddr lc" by auto
  show "\<exists>pre target post lc'.
          theirUpdateLog lc = pre @ target # post
        \<and> settleCandidate (descriptors lc) (sha256 e preimage) target
        \<and> (\<forall>a \<in> set pre. \<not> settleCandidate (descriptors lc) (sha256 e preimage) a)
        \<and> SettleHTLC e lc preimage = (Inr (Index (descriptors lc target)), lc')
        \<and> descriptors lc' target = (descriptors lc target)\<lparr>settled := True\<rparr>
        \<and> ourUpdateLog lc' = ourUpdateLog lc @ [nextAddr lc]
        \<and> EntryType (descriptors lc' (nextAddr lc)) = Settle
        \<and> ParentIndex (descriptors lc' (nextAddr lc)) = Index (descriptors lc target)
        \<and> Index (descriptors lc' (nextAddr lc)) = ourLogCounter lc
        \<and> Amount (descriptors lc' (nextAddr lc)) = Amount (descriptors lc target)
        \<and> ourLogCounter lc' = ourLogCounter lc + 1
        \<and> theirUpdateLog lc' = theirUpdateLog lc
        \<and> (\<forall>a. a \<noteq> target \<and> a \<noteq> nextAddr lc \<longrightarrow> descriptors lc' a = descriptors lc a)"
    apply (rule exI [of _ pre], rule exI [of _ target], rule exI [of _ post])
    using pp ne t by (simp add: SettleHTLC_def Let_def newDescriptor_def)
next
  assume "\<forall>a \<in> set (theirUpdateLog lc).
          \<not> settleCandidate (descriptors lc) (sha256 e preimage) a"
  then have "settleScan (descriptors lc) (sha256 e preimage) (theirUpdateLog lc) = None"
    by (simp add: settleScan_None)
  then show "SettleHTLC e lc preimage = (Inl ErrInvalidPaymentHash, lc)"
    by (simp add: SettleHTLC_def)
qed


theorem settle_htlc_contract_witness:
  "SettleHTLC exampleEnv htlcReceived (replicate 32 42) = (Inr 0, settledUncommitted)
   \<and> SettleHTLC exampleEnv htlcReceived (replicate 32 7) = (Inl ErrInvalidPaymentHash, htlcReceived)"
proof -
  have fresh: "\<forall>a \<in> set (theirUpdateLog htlcReceived). a < nextAddr htlcReceived"
    by (simp add: htlcReceived_fields)
  have none: "\<forall>a \<in> set (theirUpdateLog htlcReceived).
      \<not> settleCandidate (descriptors htlcReceived) (sha256 exampleEnv (replicate 32 7)) a"
    by (simp add: htlcReceived_fields settleCandidate_def exampleEnv_def exampleHash_def
        newDescriptor_def)
  from settle_htlc_contract [OF fresh, of exampleEnv "replicate 32 7"] none
  have "SettleHTLC exampleEnv htlcReceived (replicate 32 7) = (Inl ErrInvalidPaymentHash, htlcReceived)"
    by blast
  with SettleHTLC_example show ?thesis by simp
qed

subsection \<open>C3: the contract of \<open>SignNextCommitment\<close>\<close>



lemma SignNextCommitment_Inr:
  assumes "SignNextCommitment e lc = Some (Inr (sg, idx), lc')"
  shows "\<exists>nextRevocation restWindow newCommitView lc1 commitTx.
      revocationWindow lc = nextRevocation # restWindow
    \<and> length (usedRevocations lc) \<noteq> InitialRevocationWindow
    \<and> fetchCommitmentView e lc True (ourLogCounter lc) (theirLogCounter lc)
         (NextRevocationKey nextRevocation) (NextRevocationHash nextRevocation)
         = Some (Inr newCommitView, lc1)
    \<and> txn newCommitView = Some commitTx
    \<and> rawTxInWitnessSignature e commitTx (Capacity (channelState lc1))
         (FundingRedeemScript (channelState lc1)) (OurMultiSigKey (channelState lc1)) = Inr sg
    \<and> idx = theirLogCounter lc1
    \<and> lc' = lc1\<lparr>remoteCommitChain := addCommitment newCommitView (remoteCommitChain lc1),
                 usedRevocations := usedRevocations lc1 @ [nextRevocation],
                 revocationWindow := restWindow\<rparr>"
  using assms unfolding SignNextCommitment_def
  by (auto split: list.splits option.splits sum.splits prod.splits if_splits)















subsection \<open>C9: the cooperative close transaction\<close>


lemma createCooperativeCloseTx_eq:
  "createCooperativeCloseTx e fundingIn (OurBalance cs) (TheirBalance cs)
       (OurDeliveryScript cs) (TheirDeliveryScript cs) initiator =
     (case encodeCcInstructions e (ccInstructions (sort_key txOutKey (settledOutputs cs))) of
        Inl err \<Rightarrow> None
      | Inr payload \<Rightarrow>
          Some \<lparr>Version = 1, TxIns = [fundingIn],
                TxOuts = map (\<lambda>out. \<lparr>Value = 546, PkScript = PkScript out\<rparr>)
                           (sort_key txOutKey (settledOutputs cs))
                         @ [\<lparr>Value = 0, PkScript = OP_RETURN # WriteVarBytes payload\<rparr>],
                LockTime = 0\<rparr>)"
  by (simp add: createCooperativeCloseTx_def ColorifyTx_False_eq InPlaceSort_def
      settledOutputs_def AddTxIn_def AddTxOut_def NewMsgTx_def txInKey_def Let_def
      split: sum.splits)

text \<open>
  Claim C9, as amended.  When the status is closing or closed, \<open>InitCooperativeClose\<close>
  returns \<open>ErrChanClosing\<close> and the channel is unchanged.  Otherwise, whenever it
  returns, the only change to the channel is that the status is closing.  When it
  returns a signature, the signer produced it over a transaction whose only input is
  the funding input and whose outputs are: for each party with a non-zero settled
  balance one output to that party's delivery script with the dust value 546, in the
  canonical order (by balance, then script) of the outputs that would pay the balances,
  followed by one zero-value \<open>OP_RETURN\<close> output whose payload is the encoder's result
  on the instructions that carry the balances.
\<close>

theorem cooperative_close_construction:
  "((status lc = channelClosing \<or> status lc = channelClosed) \<longrightarrow>
      InitCooperativeClose e lc = Some (Inl ErrChanClosing, lc))
   \<and> (status lc \<noteq> channelClosing \<and> status lc \<noteq> channelClosed
        \<and> InitCooperativeClose e lc = Some (r, lc') \<longrightarrow>
          lc' = lc\<lparr>status := channelClosing\<rparr>)
   \<and> (InitCooperativeClose e lc = Some (Inr (sg, txid), lc') \<longrightarrow>
        (\<exists>closeTx payload.
            rawTxInWitnessSignature e closeTx (Capacity (channelState lc))
              (FundingRedeemScript (channelState lc)) (OurMultiSigKey (channelState lc)) = Inr sg
          \<and> txid = txSha e closeTx
          \<and> TxIns closeTx = [fundingTxIn lc]
          \<and> encodeCcInstructions e
               (ccInstructions (sort_key txOutKey (settledOutputs (channelState lc))))
              = Inr payload
          \<and> TxOuts closeTx =
              map (\<lambda>out. \<lparr>Value = 546, PkScript = PkScript out\<rparr>)
                (sort_key txOutKey (settledOutputs (channelState lc)))
              @ [\<lparr>Value = 0, PkScript = OP_RETURN # WriteVarBytes payload\<rparr>]))"
proof -
  have 1: "InitCooperativeClose e lc = Some (Inl ErrChanClosing, lc)"
    if "status lc = channelClosing \<or> status lc = channelClosed"
    using that by (auto simp: InitCooperativeClose_def)
  have 2: "lc' = lc\<lparr>status := channelClosing\<rparr>"
    if "status lc \<noteq> channelClosing \<and> status lc \<noteq> channelClosed
        \<and> InitCooperativeClose e lc = Some (r, lc')"
    using that
    by (auto simp: InitCooperativeClose_def Let_def split: option.splits sum.splits)
  have 3: "\<exists>closeTx payload.
            rawTxInWitnessSignature e closeTx (Capacity (channelState lc))
              (FundingRedeemScript (channelState lc)) (OurMultiSigKey (channelState lc)) = Inr sg
          \<and> txid = txSha e closeTx
          \<and> TxIns closeTx = [fundingTxIn lc]
          \<and> encodeCcInstructions e
               (ccInstructions (sort_key txOutKey (settledOutputs (channelState lc))))
              = Inr payload
          \<and> TxOuts closeTx =
              map (\<lambda>out. \<lparr>Value = 546, PkScript = PkScript out\<rparr>)
                (sort_key txOutKey (settledOutputs (channelState lc)))
              @ [\<lparr>Value = 0, PkScript = OP_RETURN # WriteVarBytes payload\<rparr>]"
    if a: "InitCooperativeClose e lc = Some (Inr (sg, txid), lc')"
  proof -
    from a obtain closeTx where
      c: "createCooperativeCloseTx e (fundingTxIn lc) (OurBalance (channelState lc))
            (TheirBalance (channelState lc)) (OurDeliveryScript (channelState lc))
            (TheirDeliveryScript (channelState lc)) True = Some closeTx"
      and s: "rawTxInWitnessSignature e closeTx (Capacity (channelState lc))
              (FundingRedeemScript (channelState lc)) (OurMultiSigKey (channelState lc)) = Inr sg"
      and t: "txid = txSha e closeTx"
      by (auto simp: InitCooperativeClose_def Let_def split: option.splits sum.splits if_splits)
    from c obtain payload where
      p: "encodeCcInstructions e
            (ccInstructions (sort_key txOutKey (settledOutputs (channelState lc)))) = Inr payload"
      and x: "closeTx = \<lparr>Version = 1, TxIns = [fundingTxIn lc],
                TxOuts = map (\<lambda>out. \<lparr>Value = 546, PkScript = PkScript out\<rparr>)
                           (sort_key txOutKey (settledOutputs (channelState lc)))
                         @ [\<lparr>Value = 0, PkScript = OP_RETURN # WriteVarBytes payload\<rparr>],
                LockTime = 0\<rparr>"
      unfolding createCooperativeCloseTx_eq by (auto split: sum.splits)
    show ?thesis
      apply (rule exI [of _ closeTx], rule exI [of _ payload])
      using s t p by (simp add: x)
  qed
  from 1 2 3 show ?thesis by blast
qed

lemma InitCooperativeClose_example:
  "InitCooperativeClose exampleEnv exampleChannel =
     Some (Inr ([6, 13], [8]), exampleChannel\<lparr>status := channelClosing\<rparr>)"
  by (simp add: InitCooperativeClose_def exampleChannel_fields Let_def exampleState_def
      createCooperativeCloseTx_example, simp add: exampleEnv_def)

lemma settledOutputs_example:
  "settledOutputs exampleState =
     [\<lparr>Value = 500, PkScript = [18]\<rparr>, \<lparr>Value = 500, PkScript = [19]\<rparr>]"
  by (simp add: settledOutputs_def exampleState_def)

text \<open>
  The claim as stated fails on the example channel, whose settled balances are 500 and
  500 and whose status is pending: the transaction that \<open>InitCooperativeClose\<close> builds
  and signs has three outputs, of values 546, 546 and 0, none of which pays a balance.
\<close>

theorem cooperative_close_counterexample:
  "status exampleChannel = channelPending
   \<and> channelState exampleChannel = exampleState
   \<and> settledOutputs exampleState =
       [\<lparr>Value = 500, PkScript = [18]\<rparr>, \<lparr>Value = 500, PkScript = [19]\<rparr>]
   \<and> createCooperativeCloseTx exampleEnv (fundingTxIn exampleChannel) 500 500 [18] [19] True =
       Some \<lparr>Version = 1, TxIns = [NewTxIn \<lparr>Hash = [1], OutIndex = 0\<rparr>],
             TxOuts = [\<lparr>Value = 546, PkScript = [18]\<rparr>, \<lparr>Value = 546, PkScript = [19]\<rparr>,
                       \<lparr>Value = 0, PkScript = OP_RETURN # WriteVarBytes [0, 1]\<rparr>],
             LockTime = 0\<rparr>
   \<and> InitCooperativeClose exampleEnv exampleChannel =
       Some (Inr ([6, 13], [8]), exampleChannel\<lparr>status := channelClosing\<rparr>)"
  by (simp add: exampleChannel_fields settledOutputs_example createCooperativeCloseTx_example
      InitCooperativeClose_example)


theorem cooperative_close_construction_witness:
  "InitCooperativeClose exampleEnv (exampleChannel\<lparr>status := channelClosing\<rparr>) =
     Some (Inl ErrChanClosing, exampleChannel\<lparr>status := channelClosing\<rparr>)
   \<and> InitCooperativeClose exampleEnv exampleChannel =
       Some (Inr ([6, 13], [8]), exampleChannel\<lparr>status := channelClosing\<rparr>)
   \<and> sort_key txOutKey (settledOutputs (channelState exampleChannel)) =
       [\<lparr>Value = 500, PkScript = [18]\<rparr>, \<lparr>Value = 500, PkScript = [19]\<rparr>]"
proof -
  from cooperative_close_construction [of "exampleChannel\<lparr>status := channelClosing\<rparr>" exampleEnv]
  have "InitCooperativeClose exampleEnv (exampleChannel\<lparr>status := channelClosing\<rparr>) =
     Some (Inl ErrChanClosing, exampleChannel\<lparr>status := channelClosing\<rparr>)"
    by simp
  moreover
  from cooperative_close_construction
    [of exampleChannel exampleEnv "Inr ([6, 13], [8])" "exampleChannel\<lparr>status := channelClosing\<rparr>"
        "[6, 13]" "[8]"]
    InitCooperativeClose_example
  have "InitCooperativeClose exampleEnv exampleChannel =
       Some (Inr ([6, 13], [8]), exampleChannel\<lparr>status := channelClosing\<rparr>)"
    by simp
  ultimately show ?thesis
    by (simp add: exampleChannel_fields settledOutputs_example txOutKey_def)
qed

subsection \<open>C8: coin selection\<close>


lemma sint_add_no_overflow:
  fixes a b :: "64 word"
  assumes "- (2 ^ 63) \<le> sint a + sint b" "sint a + sint b < 2 ^ 63"
  shows "sint (a + b) = sint a + sint b"
  using assms by (simp add: sint_word_ariths signed_take_bit_int_eq_self)

lemma assetSum_Cons: "assetSum aid (c # cs) = assetValue aid c + assetSum aid cs"
  by (simp add: assetSum_def)

lemma assetSum_nonneg:
  "list_all (\<lambda>coin. ColorData coin \<noteq> None \<and> 0 \<le> assetValue aid coin) coins
     \<Longrightarrow> 0 \<le> assetSum aid coins"
  by (induction coins) (auto simp: assetSum_def)

lemma assetSum_take_mono:
  assumes "list_all (\<lambda>coin. ColorData coin \<noteq> None \<and> 0 \<le> assetValue aid coin) coins"
  shows "assetSum aid (take n coins) \<le> assetSum aid coins"
proof -
  have "assetSum aid coins = assetSum aid (take n coins) + assetSum aid (drop n coins)"
    unfolding assetSum_def by (metis append_take_drop_id map_append sum_list_append)
  moreover have "0 \<le> assetSum aid (drop n coins)"
    using assms by (intro assetSum_nonneg) (auto simp: list_all_iff dest: in_set_dropD)
  ultimately show ?thesis by simp
qed

lemma selectLoop_spec:
  assumes "list_all (\<lambda>coin. ColorData coin \<noteq> None \<and> 0 \<le> assetValue aid coin) rest"
    and "0 \<le> sint sat" and "sint sat + assetSum aid rest < 2 ^ 63"
  shows "(sint sat + assetSum aid rest < sint amt \<longrightarrow>
            selectLoop amt aid rest sat sel = Some (Inl ErrInsufficientFunds))
       \<and> (sint amt \<le> sint sat + assetSum aid rest \<longrightarrow>
            (\<exists>n total. n \<le> length rest
               \<and> selectLoop amt aid rest sat sel =
                   Some (Inr (total, sel @ map UtxoOutPoint (filter (ofAsset aid) (take n rest))))
               \<and> sint total = sint sat + assetSum aid (take n rest)
               \<and> sint amt \<le> sint total
               \<and> (\<forall>m < n. sint sat + assetSum aid (take m rest) < sint amt)))"
  using assms
proof (induction rest arbitrary: sat sel)
  case Nil
  then show ?case
    by (auto simp: assetSum_def word_sless_alt)
next
  case (Cons coin rest)
  from Cons.prems obtain cd where cd: "ColorData coin = Some cd"
    and nn: "0 \<le> assetValue aid coin"
    and rest: "list_all (\<lambda>coin. ColorData coin \<noteq> None \<and> 0 \<le> assetValue aid coin) rest"
    by auto
  have rest0: "0 \<le> assetSum aid rest" using rest by (rule assetSum_nonneg)
  show ?case
  proof (cases "sat <s amt")
    case False
    then have fin: "selectLoop amt aid (coin # rest) sat sel = Some (Inr (sat, sel))"
      by simp
    from False have le: "sint amt \<le> sint sat" by (simp add: word_sless_alt)
    have "\<exists>n total. n \<le> length (coin # rest)
               \<and> selectLoop amt aid (coin # rest) sat sel =
                   Some (Inr (total, sel @ map UtxoOutPoint (filter (ofAsset aid) (take n (coin # rest)))))
               \<and> sint total = sint sat + assetSum aid (take n (coin # rest))
               \<and> sint amt \<le> sint total
               \<and> (\<forall>m < n. sint sat + assetSum aid (take m (coin # rest)) < sint amt)"
      apply (rule exI [of _ 0], rule exI [of _ sat])
      using False le by (simp add: assetSum_def)
    moreover have "\<not> sint sat + assetSum aid (coin # rest) < sint amt"
      using le nn rest0 by (simp add: assetSum_Cons)
    ultimately show ?thesis by blast
  next
    case True
    then have lt: "sint sat < sint amt" by (simp add: word_sless_alt)
    define sat' where "sat' = (if AssetId cd = aid then sat + TxoValue cd else sat)"
    define sel' where "sel' = (if AssetId cd = aid then sel @ [UtxoOutPoint coin] else sel)"
    have step: "selectLoop amt aid (coin # rest) sat sel = selectLoop amt aid rest sat' sel'"
      using True cd by (simp add: sat'_def sel'_def)
    have av: "assetValue aid coin = (if AssetId cd = aid then sint (TxoValue cd) else 0)"
      by (simp add: assetValue_def cd)
    have bound: "sint sat + assetValue aid coin < 2 ^ 63"
      using Cons.prems(3) rest0 by (simp add: assetSum_Cons)
    have sat': "sint sat' = sint sat + assetValue aid coin"
      unfolding sat'_def av using Cons.prems(2) nn bound
      by (auto simp: av intro!: sint_add_no_overflow)
    have p2: "0 \<le> sint sat'" using sat' Cons.prems(2) nn by simp
    have p3: "sint sat' + assetSum aid rest < 2 ^ 63"
      using sat' Cons.prems(3) by (simp add: assetSum_Cons)
    note IH = Cons.IH [OF rest p2 p3, of sel']
    have sum: "sint sat + assetSum aid (coin # rest) = sint sat' + assetSum aid rest"
      by (simp add: sat' assetSum_Cons)
    have A: "selectLoop amt aid (coin # rest) sat sel = Some (Inl ErrInsufficientFunds)"
      if "sint sat + assetSum aid (coin # rest) < sint amt"
      using that IH by (simp add: step sum del: selectLoop.simps)
    have B: "\<exists>n total. n \<le> length (coin # rest)
               \<and> selectLoop amt aid (coin # rest) sat sel =
                   Some (Inr (total, sel @ map UtxoOutPoint (filter (ofAsset aid) (take n (coin # rest)))))
               \<and> sint total = sint sat + assetSum aid (take n (coin # rest))
               \<and> sint amt \<le> sint total
               \<and> (\<forall>m < n. sint sat + assetSum aid (take m (coin # rest)) < sint amt)"
      if "sint amt \<le> sint sat + assetSum aid (coin # rest)"
    proof -
      from that IH obtain n total where n: "n \<le> length rest"
        and r: "selectLoop amt aid rest sat' sel' =
                  Some (Inr (total, sel' @ map UtxoOutPoint (filter (ofAsset aid) (take n rest))))"
        and t: "sint total = sint sat' + assetSum aid (take n rest)"
        and a: "sint amt \<le> sint total"
        and m: "\<forall>m < n. sint sat' + assetSum aid (take m rest) < sint amt"
        by (auto simp: sum)
      have sel: "sel' @ map UtxoOutPoint (filter (ofAsset aid) (take n rest)) =
                 sel @ map UtxoOutPoint (filter (ofAsset aid) (take (Suc n) (coin # rest)))"
        by (simp add: sel'_def ofAsset_def cd)
      have min: "sint sat + assetSum aid (take k (coin # rest)) < sint amt" if "k < Suc n" for k
      proof (cases k)
        case 0
        then show ?thesis using lt by (simp add: assetSum_def)
      next
        case (Suc j)
        with that m have "sint sat' + assetSum aid (take j rest) < sint amt" by simp
        then show ?thesis by (simp add: Suc assetSum_Cons sat')
      qed
      have tk: "assetSum aid (take (Suc n) (coin # rest)) =
                  assetValue aid coin + assetSum aid (take n rest)"
        by (simp add: assetSum_Cons)
      show ?thesis
        apply (rule exI [of _ "Suc n"], rule exI [of _ total])
        using n r t a min
        by (simp add: step sel tk sat' del: take_Suc_Cons selectLoop.simps)
    qed
    from A B show ?thesis by blast
  qed
qed


text \<open>
  Claim C8, as amended.  For a list of coins that is well formed for the asset (every
  coin has color data, no coin of the asset has a negative value, and the values of
  the asset's coins sum to less than \<open>2 ^ 63\<close>): \<open>selectInputs\<close>, and so \<open>coinSelect\<close>,
  returns \<open>ErrInsufficientFunds\<close> exactly when the sum of the asset's values over the
  whole list is less than the requested amount.  Otherwise \<open>selectInputs\<close> returns the
  outpoints of the asset's coins in the shortest prefix of the list whose sum reaches
  the amount, together with that sum, and \<open>coinSelect\<close> returns the same outpoints and,
  as change, that sum minus the amount.
\<close>

theorem coin_selection:
  assumes wf: "wellFormedCoins assetId coins"
  shows
  "(selectInputs amt coins assetId = Some (Inl ErrInsufficientFunds)
      \<longleftrightarrow> assetSum assetId coins < sint amt)
   \<and> (coinSelect feeRate amt coins assetId = Some (Inl ErrInsufficientFunds)
      \<longleftrightarrow> assetSum assetId coins < sint amt)
   \<and> (sint amt \<le> assetSum assetId coins \<longrightarrow>
        (\<exists>n total. n \<le> length coins
           \<and> sint amt \<le> assetSum assetId (take n coins)
           \<and> (\<forall>m < n. assetSum assetId (take m coins) < sint amt)
           \<and> sint total = assetSum assetId (take n coins)
           \<and> selectInputs amt coins assetId =
               Some (Inr (total, map UtxoOutPoint (filter (ofAsset assetId) (take n coins))))
           \<and> coinSelect feeRate amt coins assetId =
               Some (Inr (map UtxoOutPoint (filter (ofAsset assetId) (take n coins)),
                          total - amt))))"
proof -
  from wf have la: "list_all (\<lambda>coin. ColorData coin \<noteq> None \<and> 0 \<le> assetValue assetId coin) coins"
    and b: "sint (0 :: 64 word) + assetSum assetId coins < 2 ^ 63"
    by (simp_all add: wellFormedCoins_def)
  note spec = selectLoop_spec [OF la _ b, of amt "[]", simplified, folded selectInputs_def]
  have lo: "selectInputs amt coins assetId = Some (Inl ErrInsufficientFunds)"
    if "assetSum assetId coins < sint amt"
    using that spec by simp
  have hi: "\<exists>n total. n \<le> length coins
           \<and> sint amt \<le> assetSum assetId (take n coins)
           \<and> (\<forall>m < n. assetSum assetId (take m coins) < sint amt)
           \<and> sint total = assetSum assetId (take n coins)
           \<and> selectInputs amt coins assetId =
               Some (Inr (total, map UtxoOutPoint (filter (ofAsset assetId) (take n coins))))"
    if "sint amt \<le> assetSum assetId coins"
    using that spec by auto
  have hi': "selectInputs amt coins assetId \<noteq> Some (Inl ErrInsufficientFunds)"
    if "sint amt \<le> assetSum assetId coins"
    using hi [OF that] by auto
  have 1: "selectInputs amt coins assetId = Some (Inl ErrInsufficientFunds)
      \<longleftrightarrow> assetSum assetId coins < sint amt"
    using lo hi' by (cases "assetSum assetId coins < sint amt") auto
  have 2: "coinSelect feeRate amt coins assetId = Some (Inl ErrInsufficientFunds)
      \<longleftrightarrow> selectInputs amt coins assetId = Some (Inl ErrInsufficientFunds)"
    by (auto simp: coinSelect_def split: option.splits sum.splits)
  have 3: "\<exists>n total. n \<le> length coins
           \<and> sint amt \<le> assetSum assetId (take n coins)
           \<and> (\<forall>m < n. assetSum assetId (take m coins) < sint amt)
           \<and> sint total = assetSum assetId (take n coins)
           \<and> selectInputs amt coins assetId =
               Some (Inr (total, map UtxoOutPoint (filter (ofAsset assetId) (take n coins))))
           \<and> coinSelect feeRate amt coins assetId =
               Some (Inr (map UtxoOutPoint (filter (ofAsset assetId) (take n coins)),
                          total - amt))"
    if "sint amt \<le> assetSum assetId coins"
  proof -
    from hi [OF that] obtain n total where *: "n \<le> length coins"
      "sint amt \<le> assetSum assetId (take n coins)"
      "\<forall>m < n. assetSum assetId (take m coins) < sint amt"
      "sint total = assetSum assetId (take n coins)"
      "selectInputs amt coins assetId =
               Some (Inr (total, map UtxoOutPoint (filter (ofAsset assetId) (take n coins))))"
      by blast
    show ?thesis
      apply (rule exI [of _ n], rule exI [of _ total])
      using * by (simp add: coinSelect_def)
  qed
  from 1 2 3 show ?thesis by blast
qed

text \<open>
  The claim as stated fails in four ways.  A coin of the asset with a negative value: of
  the two coins of asset A with values 10 and -5 the first alone covers the amount 8,
  so \<open>selectInputs\<close> succeeds, although the sum over the whole list is 5.  A coin of
  another asset inside the prefix: for the coins A 10, B 70, A 20 and the amount 25 the
  shortest prefix that reaches the amount is the whole list, and \<open>selectInputs\<close> returns
  the outpoints 0 and 2, not the three of the prefix.  A coin without color data:
  reading \<open>coin.ColorData.AssetId\<close> panics, so nothing is returned although the sum, 0,
  is below the amount 5.  And a sum of \<open>2 ^ 63\<close>: two coins of \<open>2 ^ 62\<close> wrap the
  signed total to a negative number, and \<open>selectInputs\<close> reports insufficient funds for
  the amount \<open>2 ^ 62 + 1\<close>.
\<close>

theorem coin_selection_counterexample:
  "assetSum ''A'' [coinOf ''A'' 10 0, coinOf ''A'' (- 5) 1] = 5
   \<and> sint (8 :: 64 word) = 8
   \<and> selectInputs 8 [coinOf ''A'' 10 0, coinOf ''A'' (- 5) 1] ''A'' =
       Some (Inr (10, [\<lparr>Hash = [1], OutIndex = 0\<rparr>]))
   \<and> \<not> (selectInputs 8 [coinOf ''A'' 10 0, coinOf ''A'' (- 5) 1] ''A''
          = Some (Inl ErrInsufficientFunds)
        \<longleftrightarrow> assetSum ''A'' [coinOf ''A'' 10 0, coinOf ''A'' (- 5) 1] < sint (8 :: 64 word))
   \<and> selectInputs 25 [coinOf ''A'' 10 0, coinOf ''B'' 70 1, coinOf ''A'' 20 2] ''A'' =
       Some (Inr (30, [\<lparr>Hash = [1], OutIndex = 0\<rparr>, \<lparr>Hash = [1], OutIndex = 2\<rparr>]))
   \<and> assetSum ''A'' (take 2 [coinOf ''A'' 10 0, coinOf ''B'' 70 1, coinOf ''A'' 20 2]) = 10
   \<and> assetSum ''A'' (take 3 [coinOf ''A'' 10 0, coinOf ''B'' 70 1, coinOf ''A'' 20 2]) = 30
   \<and> map UtxoOutPoint (take 3 [coinOf ''A'' 10 0, coinOf ''B'' 70 1, coinOf ''A'' 20 2])
       = [\<lparr>Hash = [1], OutIndex = 0\<rparr>, \<lparr>Hash = [1], OutIndex = 1\<rparr>, \<lparr>Hash = [1], OutIndex = 2\<rparr>]
   \<and> map UtxoOutPoint (take 3 [coinOf ''A'' 10 0, coinOf ''B'' 70 1, coinOf ''A'' 20 2])
       \<noteq> [\<lparr>Hash = [1], OutIndex = 0\<rparr>, \<lparr>Hash = [1], OutIndex = 2\<rparr>]
   \<and> assetSum ''A'' [\<lparr>UtxoValue = 7, ColorData = None,
                        UtxoOutPoint = \<lparr>Hash = [1], OutIndex = 0\<rparr>\<rparr>] = 0
   \<and> selectInputs 5 [\<lparr>UtxoValue = 7, ColorData = None,
                        UtxoOutPoint = \<lparr>Hash = [1], OutIndex = 0\<rparr>\<rparr>] ''A'' = None
   \<and> assetSum ''A'' [coinOf ''A'' 4611686018427387904 0, coinOf ''A'' 4611686018427387904 1]
       = 9223372036854775808
   \<and> sint (4611686018427387905 :: 64 word) = 4611686018427387905
   \<and> selectInputs 4611686018427387905
        [coinOf ''A'' 4611686018427387904 0, coinOf ''A'' 4611686018427387904 1] ''A''
       = Some (Inl ErrInsufficientFunds)"
  by (simp add: assetSum_def assetValue_def coinOf_def selectInputs_def word_sless_alt)

theorem coin_selection_witness:
  "wellFormedCoins ''A'' [coinOf ''A'' 10 0, coinOf ''B'' 70 1, coinOf ''A'' 20 2, coinOf ''A'' 30 3]
   \<and> selectInputs 25 [coinOf ''A'' 10 0, coinOf ''B'' 70 1, coinOf ''A'' 20 2, coinOf ''A'' 30 3] ''A''
       = Some (Inr (30, [\<lparr>Hash = [1], OutIndex = 0\<rparr>, \<lparr>Hash = [1], OutIndex = 2\<rparr>]))
   \<and> coinSelect 1 25 [coinOf ''A'' 10 0, coinOf ''B'' 70 1, coinOf ''A'' 20 2, coinOf ''A'' 30 3] ''A''
       = Some (Inr ([\<lparr>Hash = [1], OutIndex = 0\<rparr>, \<lparr>Hash = [1], OutIndex = 2\<rparr>], 5))
   \<and> selectInputs 61 [coinOf ''A'' 10 0, coinOf ''B'' 70 1, coinOf ''A'' 20 2, coinOf ''A'' 30 3] ''A''
       = Some (Inl ErrInsufficientFunds)"
proof -
  let ?coins = "[coinOf ''A'' 10 0, coinOf ''B'' 70 1, coinOf ''A'' 20 2, coinOf ''A'' 30 3]"
  have wf: "wellFormedCoins ''A'' ?coins"
    by (simp add: wellFormedCoins_def assetSum_def assetValue_def coinOf_def)
  have s: "assetSum ''A'' ?coins = 60"
    by (simp add: assetSum_def assetValue_def coinOf_def)
  from coin_selection [OF wf, of 61 1] s
  have "selectInputs 61 ?coins ''A'' = Some (Inl ErrInsufficientFunds)" by simp
  moreover have "selectInputs 25 ?coins ''A''
       = Some (Inr (30, [\<lparr>Hash = [1], OutIndex = 0\<rparr>, \<lparr>Hash = [1], OutIndex = 2\<rparr>]))"
    by (simp add: selectInputs_def coinOf_def word_sless_alt)
  moreover from this have "coinSelect 1 25 ?coins ''A''
       = Some (Inr ([\<lparr>Hash = [1], OutIndex = 0\<rparr>, \<lparr>Hash = [1], OutIndex = 2\<rparr>], 5))"
    by (simp add: coinSelect_def)
  ultimately show ?thesis using wf by simp
qed



subsection \<open>C2: the window invariant\<close>

lemma contiguous_snoc:
  assumes "contiguous cs" "cs \<noteq> []" "height c = height (last cs) + 1"
  shows "contiguous (cs @ [c])"
  unfolding contiguous_def
proof (intro allI impI)
  fix i assume i: "Suc i < length (cs @ [c])"
  show "height ((cs @ [c]) ! Suc i) = height ((cs @ [c]) ! i) + 1"
  proof (cases "Suc i < length cs")
    case True
    with assms(1) show ?thesis by (simp add: contiguous_def nth_append)
  next
    case False
    with i have e: "Suc i = length cs" by simp
    then have "(cs @ [c]) ! Suc i = c" by simp
    moreover from e assms(2) have "(cs @ [c]) ! i = last cs"
      by (metis Suc_inject diff_Suc_1 last_conv_nth lessI nth_append)
    ultimately show ?thesis using assms(3) by simp
  qed
qed

lemma contiguous_tl: "contiguous (c # cs) \<Longrightarrow> contiguous cs"
  unfolding contiguous_def by force

lemma contiguous_nth:
  "contiguous cs \<Longrightarrow> i < length cs \<Longrightarrow> height (cs ! i) = height (cs ! 0) + of_nat i"
  by (induction i) (auto simp: contiguous_def)

lemma contiguous_span:
  assumes "contiguous cs" "cs \<noteq> []"
  shows "height (last cs) - height (hd cs) = of_nat (length cs - 1)"
proof -
  from assms(2) have "last cs = cs ! (length cs - 1)" "hd cs = cs ! 0"
    by (simp_all add: last_conv_nth hd_conv_nth)
  with contiguous_nth [OF assms(1), of "length cs - 1"] assms(2) show ?thesis by simp
qed

lemma windowInv_budget:
  assumes "windowInv lc"
  shows "length (usedRevocations lc) \<le> InitialRevocationWindow
       \<and> (\<exists>remoteTip remoteTail.
             tip (remoteCommitChain lc) = Some remoteTip
           \<and> tail (remoteCommitChain lc) = Some remoteTail
           \<and> length (usedRevocations lc) = unat (height remoteTip - height remoteTail))"
proof -
  let ?cs = "commitments (remoteCommitChain lc)"
  from assms have le: "length (usedRevocations lc) \<le> InitialRevocationWindow"
    and len: "length ?cs = Suc (length (usedRevocations lc))"
    and con: "contiguous ?cs"
    by (simp_all add: windowInv_def)
  from len have ne: "?cs \<noteq> []" by auto
  then obtain c rest where cs: "?cs = c # rest" by (cases ?cs) auto
  have t: "tip (remoteCommitChain lc) = Some (last ?cs)"
    and l: "tail (remoteCommitChain lc) = Some (hd ?cs)"
    by (simp_all add: tip_def tail_def cs)
  from contiguous_span [OF con ne] len
  have "height (last ?cs) - height (hd ?cs) = of_nat (length (usedRevocations lc))" by simp
  moreover have "unat (of_nat (length (usedRevocations lc)) :: 64 word)
                   = length (usedRevocations lc)"
    using le by (simp add: InitialRevocationWindow_def unat_of_nat)
  ultimately show ?thesis using le t l by simp
qed

lemma compactLogs_frame:
  assumes "compactLogs lc lt rt = Some lc'"
  shows "usedRevocations lc' = usedRevocations lc
       \<and> remoteCommitChain lc' = remoteCommitChain lc"
  using assms by (auto simp: compactLogs_def split: option.splits prod.splits)

lemma SignNextCommitment_windowInv:
  assumes inv: "windowInv lc" and s: "SignNextCommitment e lc = Some (r, lc')"
  shows "windowInv lc'"
proof (cases r)
  case (Inl err)
  with s have "\<exists>h. lc' = lc\<lparr>descriptors := h\<rparr>"
    unfolding SignNextCommitment_def
    by (auto split: list.splits option.splits sum.splits prod.splits if_splits
        dest!: fetchCommitmentView_state intro: exI [of _ "descriptors lc"])
  with inv show ?thesis by (auto simp: windowInv_def)
next
  case (Inr res)
  obtain sg idx where "res = (sg, idx)" by (cases res)
  with Inr s have "SignNextCommitment e lc = Some (Inr (sg, idx), lc')" by simp
  from SignNextCommitment_Inr [OF this] obtain nextRevocation restWindow newCommitView lc1
    where n4: "length (usedRevocations lc) \<noteq> InitialRevocationWindow"
      and f: "fetchCommitmentView e lc True (ourLogCounter lc) (theirLogCounter lc)
         (NextRevocationKey nextRevocation) (NextRevocationHash nextRevocation)
         = Some (Inr newCommitView, lc1)"
      and l: "lc' = lc1\<lparr>remoteCommitChain := addCommitment newCommitView (remoteCommitChain lc1),
                 usedRevocations := usedRevocations lc1 @ [nextRevocation],
                 revocationWindow := restWindow\<rparr>"
    by blast
  from fetchCommitmentView_state [OF f] obtain h where lc1: "lc1 = lc\<lparr>descriptors := h\<rparr>"
    by blast
  from fetchCommitmentView_Inr [OF f] obtain t where
    tp: "tip (remoteCommitChain lc) = Some t" and ht: "height newCommitView = height t + 1"
    by auto
  let ?cs = "commitments (remoteCommitChain lc)"
  from tp have ne: "?cs \<noteq> []" and t: "t = last ?cs"
    by (auto simp: tip_def split: list.splits)
  from inv have con: "contiguous ?cs" by (simp add: windowInv_def)
  have "contiguous (?cs @ [newCommitView])"
    using con ne ht t by (intro contiguous_snoc) simp_all
  with inv n4 show ?thesis
    by (simp add: windowInv_def l lc1 addCommitment_def)
qed

lemma ReceiveRevocation_windowInv:
  assumes inv: "windowInv lc" and sync: "\<forall>cs. syncRevocation e cs = None"
    and s: "ReceiveRevocation e lc revMsg = Some (r, lc')"
  shows "windowInv lc'"
proof (cases "Revocation revMsg = zeroHash")
  case True
  with s have "lc' = lc\<lparr>revocationWindow := revocationWindow lc @ [revMsg]\<rparr>"
    by (simp add: ReceiveRevocation_def)
  with inv show ?thesis by (simp add: windowInv_def)
next
  case False
  show ?thesis
  proof (cases "elkremAddNext e (RemoteElkrem (channelState lc)) (Revocation revMsg)")
    case (Inl err)
    with False s have "lc' = lc" by (simp add: ReceiveRevocation_def Let_def)
    with inv show ?thesis by simp
  next
    case (Inr receiver)
    define lc1 where "lc1 = lc\<lparr>channelState := (channelState lc)\<lparr>RemoteElkrem := receiver\<rparr>\<rparr>"
    have inv1: "windowInv lc1" using inv by (simp add: windowInv_def lc1_def)
    have "lc' = lc1
      \<or> (\<exists>nextRevocation restUsed chain.
            usedRevocations lc = nextRevocation # restUsed
          \<and> advanceTail (remoteCommitChain lc) = Some chain
          \<and> usedRevocations lc' = restUsed \<and> remoteCommitChain lc' = chain)"
      using s False Inr sync unfolding ReceiveRevocation_def Let_def
      by (auto simp: lc1_def split: if_splits list.splits option.splits prod.splits
          dest!: compactLogs_frame)
    then show ?thesis
    proof (elim disjE exE conjE)
      assume "lc' = lc1"
      with inv1 show ?thesis by simp
    next
      fix nextRevocation restUsed chain
      assume u0: "usedRevocations lc = nextRevocation # restUsed"
        and a: "advanceTail (remoteCommitChain lc) = Some chain"
        and u: "usedRevocations lc' = restUsed" and c: "remoteCommitChain lc' = chain"
      from a obtain c0 where cs: "commitments (remoteCommitChain lc) = c0 # commitments chain"
        by (auto simp: advanceTail_def split: list.splits)
      from inv u0 cs show ?thesis
        by (auto simp: windowInv_def u c dest: contiguous_tl)
    qed
  qed
qed

lemma exec_frame:
  assumes "exec e c lc = Some lc'" "c \<noteq> CallSignNextCommitment"
    "\<forall>m. c \<noteq> CallReceiveRevocation m"
  shows "usedRevocations lc' = usedRevocations lc \<and> remoteCommitChain lc' = remoteCommitChain lc"
proof (cases c)
  case (CallReceiveNewCommitment rawSig idx)
  with assms(1) obtain r where
    "ReceiveNewCommitment e lc rawSig idx = Some (r, lc')" by auto
  then have "\<exists>h. lc' = lc\<lparr>descriptors := h\<rparr>
           \<or> (\<exists>ch. lc' = lc\<lparr>descriptors := h, localCommitChain := ch\<rparr>)"
    unfolding ReceiveNewCommitment_def Let_def
    by (auto split: option.splits sum.splits prod.splits if_splits
        dest!: fetchCommitmentView_state intro: exI [of _ "descriptors lc"])
  then show ?thesis by auto
next
  case CallRevokeCurrentCommitment
  with assms(1) obtain r where "RevokeCurrentCommitment e lc = Some (r, lc')" by auto
  then show ?thesis
    unfolding RevokeCurrentCommitment_def Let_def
    by (auto split: option.splits sum.splits)
next
  case CallExtendRevocationWindow
  with assms(1) show ?thesis
    by (auto simp: ExtendRevocationWindow_def Let_def split: sum.splits)
next
  case (CallAddHTLC htlc)
  with assms(1) show ?thesis
    by (auto simp: AddHTLC_def Let_def split: list.splits)
next
  case (CallReceiveHTLC htlc)
  with assms(1) show ?thesis
    by (auto simp: ReceiveHTLC_def Let_def split: list.splits)
next
  case (CallSettleHTLC preimage)
  with assms(1) show ?thesis
    by (auto simp: SettleHTLC_def Let_def split: option.splits)
next
  case (CallReceiveHTLCSettle preimage idx)
  with assms(1) show ?thesis
    by (auto simp: ReceiveHTLCSettle_def Let_def split: option.splits if_splits)
qed (use assms in auto)

lemma exec_windowInv:
  assumes "windowInv lc" "\<forall>cs. syncRevocation e cs = None" "exec e c lc = Some lc'"
  shows "windowInv lc'"
proof (cases "c = CallSignNextCommitment \<or> (\<exists>m. c = CallReceiveRevocation m)")
  case True
  then show ?thesis
  proof
    assume "c = CallSignNextCommitment"
    with assms(3) obtain r where "SignNextCommitment e lc = Some (r, lc')" by auto
    with assms(1) show ?thesis by (rule SignNextCommitment_windowInv)
  next
    assume "\<exists>m. c = CallReceiveRevocation m"
    then obtain m where "c = CallReceiveRevocation m" ..
    with assms(3) obtain r where "ReceiveRevocation e lc m = Some (r, lc')" by auto
    with assms(1,2) show ?thesis by (rule ReceiveRevocation_windowInv)
  qed
next
  case False
  with exec_frame [OF assms(3)] assms(1) show ?thesis
    by (simp add: windowInv_def)
qed

lemma run_windowInv:
  assumes "windowInv lc" "\<forall>cs. syncRevocation e cs = None" "run e calls lc = Some lc'"
  shows "windowInv lc'"
  using assms
proof (induction calls arbitrary: lc)
  case Nil
  then show ?case by simp
next
  case (Cons c calls)
  then show ?case
    by (auto split: option.splits dest: exec_windowInv)
qed

lemma NewLightningChannel_windowInv:
  assumes "NewLightningChannel e state = Inr lc"
  shows "windowInv lc"
  using assms
  by (auto simp: NewLightningChannel_def Let_def windowInv_def addCommitment_def
      newCommitmentChain_def contiguous_def InitialRevocationWindow_def split: sum.splits)

lemma SignNextCommitment_budget:
  assumes "SignNextCommitment e lc = Some (r, lc')"
  shows "length (usedRevocations lc') + length (revocationWindow lc')
           = length (usedRevocations lc) + length (revocationWindow lc)
       \<and> (length (usedRevocations lc) \<le> InitialRevocationWindow
            \<longrightarrow> length (usedRevocations lc') \<le> InitialRevocationWindow)"
proof -
  from assms have "(usedRevocations lc' = usedRevocations lc
        \<and> revocationWindow lc' = revocationWindow lc)
     \<or> (length (usedRevocations lc) \<noteq> InitialRevocationWindow
        \<and> (\<exists>r w. revocationWindow lc = r # w \<and> revocationWindow lc' = w
               \<and> usedRevocations lc' = usedRevocations lc @ [r]))"
    unfolding SignNextCommitment_def Let_def
    by (auto split: list.splits option.splits sum.splits prod.splits if_splits
        dest!: fetchCommitmentView_state)
  then show ?thesis by auto
qed

lemma compactLogs_window:
  assumes "compactLogs lc lt rt = Some lc'"
  shows "usedRevocations lc' = usedRevocations lc
       \<and> revocationWindow lc' = revocationWindow lc"
  using assms by (auto simp: compactLogs_def split: option.splits prod.splits)

lemma ReceiveRevocation_budget:
  assumes "ReceiveRevocation e lc revMsg = Some (r, lc')"
  shows "length (usedRevocations lc') + length (revocationWindow lc')
           = length (usedRevocations lc) + length (revocationWindow lc)
             + (if Revocation revMsg = zeroHash then 1 else 0)
       \<and> length (usedRevocations lc') \<le> length (usedRevocations lc)"
proof (cases "Revocation revMsg = zeroHash")
  case True
  with assms show ?thesis by (auto simp: ReceiveRevocation_def)
next
  case False
  with assms have "(usedRevocations lc' = usedRevocations lc
        \<and> revocationWindow lc' = revocationWindow lc)
     \<or> (\<exists>u. usedRevocations lc = u # usedRevocations lc'
            \<and> revocationWindow lc' = revocationWindow lc @ [revMsg])"
    unfolding ReceiveRevocation_def Let_def
    by (auto split: if_splits sum.splits list.splits option.splits prod.splits
        dest!: compactLogs_window)
  with False show ?thesis by auto
qed

lemma exec_budget:
  assumes "exec e c lc = Some lc'"
  shows "length (usedRevocations lc') + length (revocationWindow lc')
           = length (usedRevocations lc) + length (revocationWindow lc)
             + (if windowExtensionCall c then 1 else 0)
       \<and> (length (usedRevocations lc) \<le> InitialRevocationWindow
            \<longrightarrow> length (usedRevocations lc') \<le> InitialRevocationWindow)"
proof (cases c)
  case CallSignNextCommitment
  with assms obtain r where "SignNextCommitment e lc = Some (r, lc')" by auto
  from SignNextCommitment_budget [OF this] CallSignNextCommitment show ?thesis
    by (simp add: windowExtensionCall_def)
next
  case (CallReceiveRevocation m)
  with assms obtain r where "ReceiveRevocation e lc m = Some (r, lc')" by auto
  from ReceiveRevocation_budget [OF this] CallReceiveRevocation show ?thesis
    by (simp add: windowExtensionCall_def)
next
  case (CallReceiveNewCommitment rawSig idx)
  with assms obtain r where
    "ReceiveNewCommitment e lc rawSig idx = Some (r, lc')" by auto
  then have "usedRevocations lc' = usedRevocations lc
      \<and> revocationWindow lc' = revocationWindow lc"
    unfolding ReceiveNewCommitment_def Let_def
    by (auto split: option.splits sum.splits prod.splits if_splits
        dest!: fetchCommitmentView_state)
  with CallReceiveNewCommitment show ?thesis by (simp add: windowExtensionCall_def)
next
  case CallRevokeCurrentCommitment
  with assms obtain r where "RevokeCurrentCommitment e lc = Some (r, lc')" by auto
  then have "usedRevocations lc' = usedRevocations lc
      \<and> revocationWindow lc' = revocationWindow lc"
    unfolding RevokeCurrentCommitment_def Let_def
    by (auto split: option.splits sum.splits)
  with CallRevokeCurrentCommitment show ?thesis by (simp add: windowExtensionCall_def)
next
  case CallExtendRevocationWindow
  with assms show ?thesis
    by (auto simp: ExtendRevocationWindow_def Let_def windowExtensionCall_def split: sum.splits)
next
  case (CallAddHTLC htlc)
  with assms show ?thesis
    by (auto simp: AddHTLC_def Let_def windowExtensionCall_def split: list.splits)
next
  case (CallReceiveHTLC htlc)
  with assms show ?thesis
    by (auto simp: ReceiveHTLC_def Let_def windowExtensionCall_def split: list.splits)
next
  case (CallSettleHTLC preimage)
  with assms show ?thesis
    by (auto simp: SettleHTLC_def Let_def windowExtensionCall_def split: option.splits)
next
  case (CallReceiveHTLCSettle preimage idx)
  with assms show ?thesis
    by (auto simp: ReceiveHTLCSettle_def Let_def windowExtensionCall_def
        split: option.splits if_splits)
qed

lemma run_budget:
  assumes "run e calls lc = Some lc'"
  shows "length (usedRevocations lc') + length (revocationWindow lc')
           = length (usedRevocations lc) + length (revocationWindow lc)
             + extensionsReceived calls
       \<and> (length (usedRevocations lc) \<le> InitialRevocationWindow
            \<longrightarrow> length (usedRevocations lc') \<le> InitialRevocationWindow)"
  using assms
proof (induction calls arbitrary: lc)
  case Nil
  then show ?case by (simp add: extensionsReceived_def)
next
  case (Cons c calls)
  from Cons.prems obtain lc1 where 1: "exec e c lc = Some lc1"
    and 2: "run e calls lc1 = Some lc'"
    by (auto split: option.splits)
  from exec_budget [OF 1] Cons.IH [OF 2] show ?case
    by (simp add: extensionsReceived_def)
qed

lemma NewLightningChannel_budget:
  assumes "NewLightningChannel e state = Inr lc"
  shows "usedRevocations lc = [] \<and> revocationWindow lc = []"
  using assms by (auto simp: NewLightningChannel_def Let_def split: sum.splits)

text \<open>
  Claim C2, as amended.  In every channel state reached from a freshly constructed
  channel by a sequence of calls of \<open>SignNextCommitment\<close>, \<open>ReceiveNewCommitment\<close>,
  \<open>RevokeCurrentCommitment\<close>, \<open>ReceiveRevocation\<close>, \<open>ExtendRevocationWindow\<close>, \<open>AddHTLC\<close>,
  \<open>ReceiveHTLC\<close>, \<open>SettleHTLC\<close> and \<open>ReceiveHTLCSettle\<close>, the length of \<open>usedRevocations\<close>
  plus the length of \<open>revocationWindow\<close> is the number of window extensions received, and
  so is at most \<open>InitialRevocationWindow\<close> as long as at most that many extensions have
  been received; \<open>usedRevocations\<close> holds at most \<open>InitialRevocationWindow\<close> entries; and,
  with a persistence layer whose \<open>SyncRevocation\<close> does not fail, their number is the
  height of the tip of the remote chain minus the height of its tail.
\<close>

theorem window_budget_invariant:
  assumes "NewLightningChannel e state = Inr lc0"
    and "run e calls lc0 = Some lc"
  shows "length (usedRevocations lc) + length (revocationWindow lc) = extensionsReceived calls
       \<and> (extensionsReceived calls \<le> InitialRevocationWindow \<longrightarrow>
            length (usedRevocations lc) + length (revocationWindow lc)
              \<le> InitialRevocationWindow)
       \<and> length (usedRevocations lc) \<le> InitialRevocationWindow
       \<and> ((\<forall>cs. syncRevocation e cs = None) \<longrightarrow>
            (\<exists>remoteTip remoteTail.
               tip (remoteCommitChain lc) = Some remoteTip
             \<and> tail (remoteCommitChain lc) = Some remoteTail
             \<and> length (usedRevocations lc) = unat (height remoteTip - height remoteTail)))"
proof -
  note n = NewLightningChannel_budget [OF assms(1)]
  from run_budget [OF assms(2)] n
  have s: "length (usedRevocations lc) + length (revocationWindow lc) = extensionsReceived calls"
    and u: "length (usedRevocations lc) \<le> InitialRevocationWindow"
    by simp_all
  have t: "\<exists>remoteTip remoteTail.
               tip (remoteCommitChain lc) = Some remoteTip
             \<and> tail (remoteCommitChain lc) = Some remoteTail
             \<and> length (usedRevocations lc) = unat (height remoteTip - height remoteTail)"
    if "\<forall>cs. syncRevocation e cs = None"
    using windowInv_budget [OF run_windowInv [OF NewLightningChannel_windowInv [OF assms(1)]
          that assms(2)]]
    by blast
  from s u t show ?thesis by simp
qed

lemma run_append:
  "run e (xs @ ys) lc = (case run e xs lc of None \<Rightarrow> None | Some lc' \<Rightarrow> run e ys lc')"
  by (induction xs arbitrary: lc) (auto split: option.splits)

theorem window_budget_invariant_witness:
  "\<exists>lc. run exampleEnv
          [CallReceiveRevocation windowExtension, CallReceiveHTLC exampleHTLC,
           CallSignNextCommitment] exampleChannel = Some lc
      \<and> extensionsReceived [CallReceiveRevocation windowExtension, CallReceiveHTLC exampleHTLC,
           CallSignNextCommitment] = 1
      \<and> usedRevocations lc = [windowExtension] \<and> revocationWindow lc = []
      \<and> length (usedRevocations lc) + length (revocationWindow lc) = 1
      \<and> length (usedRevocations lc) + length (revocationWindow lc) \<le> InitialRevocationWindow
      \<and> length (usedRevocations lc) \<le> InitialRevocationWindow
      \<and> (\<exists>remoteTip remoteTail.
             tip (remoteCommitChain lc) = Some remoteTip
           \<and> tail (remoteCommitChain lc) = Some remoteTail
           \<and> length (usedRevocations lc) = unat (height remoteTip - height remoteTail))"
proof -
  let ?calls = "[CallReceiveRevocation windowExtension, CallReceiveHTLC exampleHTLC,
           CallSignNextCommitment]"
  obtain lc where s: "SignNextCommitment exampleEnv htlcReceived = Some (Inr ([6, 13], 1), lc)"
    and u: "usedRevocations lc = [windowExtension]"
    using SignNextCommitment_htlcReceived by simp
  have r: "run exampleEnv
          ([CallReceiveRevocation windowExtension, CallReceiveHTLC exampleHTLC]
           @ [CallSignNextCommitment]) exampleChannel = Some lc"
    unfolding run_append htlcReceived_reachable by (simp add: s)
  then have r': "run exampleEnv ?calls exampleChannel = Some lc" by simp
  have sync: "\<forall>cs. syncRevocation exampleEnv cs = None"
    by (simp add: exampleEnv_def)
  have x: "extensionsReceived ?calls = 1"
    by (simp add: extensionsReceived_def windowExtensionCall_def windowExtension_def)
  note b = window_budget_invariant [OF NewLightningChannel_example r']
  have xle: "extensionsReceived ?calls \<le> InitialRevocationWindow"
    by (simp add: x InitialRevocationWindow_def)
  note b1 = b [THEN conjunct1]
  note b2 = b [THEN conjunct2, THEN conjunct1, THEN mp, OF xle]
  note b3 = b [THEN conjunct2, THEN conjunct2, THEN conjunct1]
  note b4 = b [THEN conjunct2, THEN conjunct2, THEN conjunct2, THEN mp, OF sync]
  from b1 u have w: "revocationWindow lc = []" by (simp add: x)
  from r' x u w b1 b2 b3 b4 show ?thesis
    by (intro exI [of _ lc] conjI) simp_all
qed

lemma five_extensions:
  "run exampleEnv
     [CallReceiveRevocation windowExtension, CallReceiveRevocation windowExtension,
      CallReceiveRevocation windowExtension, CallReceiveRevocation windowExtension,
      CallReceiveRevocation windowExtension] exampleChannel =
   Some (exampleChannel\<lparr>revocationWindow :=
           [windowExtension, windowExtension, windowExtension, windowExtension,
            windowExtension]\<rparr>)"
  by (simp add: ReceiveRevocation_def windowExtension_def exampleChannel_fields)

lemma failing_sync_run:
  "map_option (\<lambda>lc. (length (usedRevocations lc),
                      map height (commitments (remoteCommitChain lc))))
     (run failingSyncEnv
        [CallReceiveRevocation windowExtension, CallSignNextCommitment,
         CallReceiveRevocation validRevocation] exampleChannel) = Some (0, [0, 1])"
  by (simp add: ReceiveRevocation_def SignNextCommitment_def exampleChannel_fields example_eval
      failingSyncEnv_def validRevocation_def zeroHash_def specElkremAddNext_def tail_def)

text \<open>
  The claim as stated fails.  \<open>ReceiveRevocation\<close> appends every revocation with a zero
  pre-image to \<open>revocationWindow\<close>, so five of them leave a window of five, which is
  more than \<open>InitialRevocationWindow\<close>.  And when \<open>SyncRevocation\<close> fails,
  \<open>ReceiveRevocation\<close> returns after it has popped \<open>usedRevocations\<close> and before it
  advances the remote tail: no used revocation is left while the remote chain still
  spans the heights 0 and 1.
\<close>

theorem window_budget_counterexample:
  "NewLightningChannel exampleEnv exampleState = Inr exampleChannel
   \<and> map_option (\<lambda>lc. length (usedRevocations lc) + length (revocationWindow lc))
        (run exampleEnv
           [CallReceiveRevocation windowExtension, CallReceiveRevocation windowExtension,
            CallReceiveRevocation windowExtension, CallReceiveRevocation windowExtension,
            CallReceiveRevocation windowExtension] exampleChannel) = Some 5
   \<and> \<not> 5 \<le> InitialRevocationWindow
   \<and> map_option (\<lambda>lc. (length (usedRevocations lc),
                        map height (commitments (remoteCommitChain lc))))
        (run failingSyncEnv
           [CallReceiveRevocation windowExtension, CallSignNextCommitment,
            CallReceiveRevocation validRevocation] exampleChannel) = Some (0, [0, 1])"
  unfolding five_extensions failing_sync_run
  by (simp add: NewLightningChannel_example InitialRevocationWindow_def exampleChannel_fields)


subsection \<open>C4: rejection of a revocation that does not match\<close>

text \<open>
  When the elkrem receiver accepts the pre-image and the derived key is not the stored
  one, \<open>ReceiveRevocation\<close> returns the key mismatch and the channel it leaves holds the
  receiver that has taken the pre-image in.
\<close>

lemma ReceiveRevocation_key_mismatch:
  assumes "Revocation revMsg \<noteq> zeroHash"
    and "pubKeyOf e (deriveRevocationPrivKey e (OurCommitKey (channelState lc))
            (Revocation revMsg)) \<noteq> TheirCurrentRevocation (channelState lc)"
    and "elkremAddNext e (RemoteElkrem (channelState lc)) (Revocation revMsg) = Inr receiver"
  shows "ReceiveRevocation e lc revMsg =
           Some (Inl ErrRevocationKeyMismatch,
                 lc\<lparr>channelState := (channelState lc)\<lparr>RemoteElkrem := receiver\<rparr>\<rparr>)"
  using assms by (simp add: ReceiveRevocation_def Let_def)

lemma ReceiveRevocation_replayed:
  "ReceiveRevocation exampleEnv exampleChannel replayedRevocation =
     Some (Inl ErrRevocationKeyMismatch,
           exampleChannel\<lparr>channelState := exampleState\<lparr>RemoteElkrem := [replicate 32 99]\<rparr>\<rparr>)"
  by (simp add: ReceiveRevocation_def replayedRevocation_def zeroHash_def exampleChannel_fields
      Let_def exampleEnv_def specElkremAddNext_def exampleState_def)

lemma replayed_premises:
  "Revocation replayedRevocation \<noteq> zeroHash
   \<and> pubKeyOf exampleEnv (deriveRevocationPrivKey exampleEnv
        (OurCommitKey (channelState exampleChannel)) (Revocation replayedRevocation))
       \<noteq> TheirCurrentRevocation (channelState exampleChannel)"
  by (simp add: replayedRevocation_def zeroHash_def exampleChannel_fields exampleEnv_def
      exampleState_def)

lemma valid_accepted:
  "Option.bind
     (run exampleEnv [CallReceiveRevocation windowExtension, CallSignNextCommitment]
        exampleChannel)
     (\<lambda>lc. map_option (\<lambda>(r, lc'). (r, RemoteElkrem (channelState lc')))
              (ReceiveRevocation exampleEnv lc validRevocation))
   = Some (Inr [], [replicate 32 17])"
  by (simp add: ReceiveRevocation_def SignNextCommitment_def exampleChannel_fields example_eval
      validRevocation_def zeroHash_def specElkremAddNext_def tail_def advanceTail_def
      compactLogs_def)

lemma valid_refused:
  "Option.bind
     (run exampleEnv [CallReceiveRevocation windowExtension, CallSignNextCommitment,
        CallReceiveRevocation replayedRevocation] exampleChannel)
     (\<lambda>lc. map_option (\<lambda>(r, lc'). (r, RemoteElkrem (channelState lc')))
              (ReceiveRevocation exampleEnv lc validRevocation))
   = Some (Inl (ErrLib ''ElkremMismatch''), [replicate 32 99])"
  by (simp add: ReceiveRevocation_def SignNextCommitment_def exampleChannel_fields example_eval
      validRevocation_def replayedRevocation_def zeroHash_def specElkremAddNext_def tail_def
      advanceTail_def compactLogs_def exampleHash_def)

text \<open>
  Claim C4 states that a revocation with a non-zero pre-image whose derived key is not
  the stored one is rejected with the key mismatch and leaves the channel unchanged,
  the remote elkrem receiver included.  The code feeds the pre-image to the receiver
  before it checks the key and does not take it back when the check fails.  On the
  example channel the replayed revocation is rejected with the key mismatch, and the
  receiver, empty before, holds its pre-image afterwards.  After a window extension
  and a signed commitment the valid revocation is accepted; when the replayed
  revocation has come first, the receiver refuses the valid one.
\<close>

theorem revocation_replay_changes_receiver:
  "Revocation replayedRevocation \<noteq> zeroHash
   \<and> pubKeyOf exampleEnv (deriveRevocationPrivKey exampleEnv
        (OurCommitKey (channelState exampleChannel)) (Revocation replayedRevocation))
       \<noteq> TheirCurrentRevocation (channelState exampleChannel)
   \<and> RemoteElkrem (channelState exampleChannel) = []
   \<and> ReceiveRevocation exampleEnv exampleChannel replayedRevocation =
       Some (Inl ErrRevocationKeyMismatch,
             exampleChannel\<lparr>channelState := exampleState\<lparr>RemoteElkrem := [replicate 32 99]\<rparr>\<rparr>)
   \<and> exampleChannel\<lparr>channelState := exampleState\<lparr>RemoteElkrem := [replicate 32 99]\<rparr>\<rparr>
       \<noteq> exampleChannel
   \<and> Option.bind
        (run exampleEnv [CallReceiveRevocation windowExtension, CallSignNextCommitment]
           exampleChannel)
        (\<lambda>lc. map_option (\<lambda>(r, lc'). (r, RemoteElkrem (channelState lc')))
                 (ReceiveRevocation exampleEnv lc validRevocation))
      = Some (Inr [], [replicate 32 17])
   \<and> Option.bind
        (run exampleEnv [CallReceiveRevocation windowExtension, CallSignNextCommitment,
           CallReceiveRevocation replayedRevocation] exampleChannel)
        (\<lambda>lc. map_option (\<lambda>(r, lc'). (r, RemoteElkrem (channelState lc')))
                 (ReceiveRevocation exampleEnv lc validRevocation))
      = Some (Inl (ErrLib ''ElkremMismatch''), [replicate 32 99])"
proof -
  have ne: "exampleChannel\<lparr>channelState := exampleState\<lparr>RemoteElkrem := [replicate 32 99]\<rparr>\<rparr>
       \<noteq> exampleChannel"
  proof
    assume "exampleChannel\<lparr>channelState := exampleState\<lparr>RemoteElkrem := [replicate 32 99]\<rparr>\<rparr>
       = exampleChannel"
    then have "RemoteElkrem (channelState
        (exampleChannel\<lparr>channelState := exampleState\<lparr>RemoteElkrem := [replicate 32 99]\<rparr>\<rparr>))
        = RemoteElkrem (channelState exampleChannel)" by simp
    then show False by (simp add: exampleChannel_fields exampleState_def)
  qed
  from replayed_premises ReceiveRevocation_replayed ne valid_accepted valid_refused
  show ?thesis
    by (simp add: exampleChannel_fields exampleState_def)
qed


subsection \<open>C1: balances of a commitment view\<close>

text \<open>
  Claim C1 states that every commitment view built by \<open>fetchCommitmentView\<close> has
  \<open>ourBalance + theirBalance\<close> plus the amounts of the entries of the filtered view equal
  to the capacity.  The code does not keep this when a Settle is evaluated on a chain
  that has not yet seen its parent Add.  On the example channel (capacity 1000, settled
  balances 500 and 500) the calls \<open>ReceiveRevocation\<close> (a window extension),
  \<open>ReceiveHTLC\<close> (100) and \<open>SettleHTLC\<close> reach the state \<open>settledUncommitted\<close>; there the
  first pass credits 100 to our balance, the second pass skips their Add without
  debiting it, the filtered view is empty, and the commitment that
  \<open>SignNextCommitment\<close> appends to the remote chain has balances 600 and 500.
\<close>

theorem balance_conservation_violated:
  "run exampleEnv
     [CallReceiveRevocation windowExtension, CallReceiveHTLC exampleHTLC,
      CallSettleHTLC (replicate 32 42)] exampleChannel = Some settledUncommitted
   \<and> OurBalance (channelState settledUncommitted) + TheirBalance (channelState settledUncommitted)
       = Capacity (channelState settledUncommitted)
   \<and> Capacity (channelState settledUncommitted) = 1000
   \<and> evaluateHTLCView settledUncommitted (fetchHTLCView settledUncommitted 1 1) 500 500 1 True
       = Some (([], []), 600, 500,
           settledUncommitted\<lparr>descriptors := (descriptors settledUncommitted)
              (Suc 0 := (newDescriptor Settle [] 0 100 0 0)\<lparr>removeCommitHeightRemote := 1\<rparr>)\<rparr>)
   \<and> map_option (\<lambda>(r, lc). map (\<lambda>c. (ourBalance c, theirBalance c))
                               (commitments (remoteCommitChain lc)))
        (SignNextCommitment exampleEnv settledUncommitted) = Some [(500, 500), (600, 500)]
   \<and> (600 :: Amount) + 500 + pendingAmount (descriptors settledUncommitted) ([], []) \<noteq> 1000"
proof -
  have 1: "run exampleEnv
     ([CallReceiveRevocation windowExtension, CallReceiveHTLC exampleHTLC]
      @ [CallSettleHTLC (replicate 32 42)]) exampleChannel = Some settledUncommitted"
    unfolding run_append htlcReceived_reachable by (simp add: SettleHTLC_example)
  have 2: "evaluateHTLCView settledUncommitted (fetchHTLCView settledUncommitted 1 1) 500 500 1 True
       = Some (([], []), 600, 500,
           settledUncommitted\<lparr>descriptors := (descriptors settledUncommitted)
              (Suc 0 := (newDescriptor Settle [] 0 100 0 0)\<lparr>removeCommitHeightRemote := 1\<rparr>)\<rparr>)"
    by (simp add: evaluateHTLCView_def fetchHTLCView_def settledUncommitted_fields
        newDescriptor_def ourUpdates_def theirUpdates_def processRemoveEntry_def)
  have 3: "map_option (\<lambda>(r, lc). map (\<lambda>c. (ourBalance c, theirBalance c))
                               (commitments (remoteCommitChain lc)))
        (SignNextCommitment exampleEnv settledUncommitted) = Some [(500, 500), (600, 500)]"
    unfolding SignNextCommitment_settledUncommitted by (simp add: initialCommitment_def)
  from 1 2 3 show ?thesis
    by (simp add: settledUncommitted_fields exampleState_def pendingAmount_def ourUpdates_def
        theirUpdates_def)
qed

subsection \<open>C5: log compaction\<close>

lemma compactLog_skip:
  "\<not> evictable (h e) lt rt \<Longrightarrow>
     compactLog h lt rt (e # es) st = compactLog h lt rt es st"
  by (cases st) (auto simp: evictable_def Let_def)

lemma compactLog_evict:
  "evictable (h e) lt rt \<Longrightarrow>
     compactLog h lt rt (e # es) (logA, logB, indexB, indexA) =
       (case indexB (ParentIndex (h e)) of
          None \<Rightarrow> None
        | Some p \<Rightarrow>
            compactLog h lt rt es
              (filter (\<lambda>x. x \<noteq> e) logA, filter (\<lambda>x. x \<noteq> p) logB,
               indexB(Index (h p) := None), indexA(Index (h e) := None)))"
  by (auto simp: evictable_def Let_def split: option.splits)

declare compactLog.simps(2) [simp del]

lemma compactLog_lookups:
  "compactLog h lt rt es (logA, logB, indexB, indexA) = Some res \<Longrightarrow>
     e \<in> set es \<Longrightarrow> evictable (h e) lt rt \<Longrightarrow> indexB (ParentIndex (h e)) \<noteq> None"
proof (induction es arbitrary: logA logB indexB indexA)
  case Nil
  then show ?case by simp
next
  case (Cons x es)
  show ?case
  proof (cases "evictable (h x) lt rt")
    case False
    with Cons.prems have "compactLog h lt rt es (logA, logB, indexB, indexA) = Some res"
      "e \<in> set es"
      by (auto simp: compactLog_skip)
    with Cons.IH Cons.prems(3) show ?thesis by blast
  next
    case True
    with Cons.prems(1) obtain p where p: "indexB (ParentIndex (h x)) = Some p"
      and r: "compactLog h lt rt es
              (filter (\<lambda>y. y \<noteq> x) logA, filter (\<lambda>y. y \<noteq> p) logB,
               indexB(Index (h p) := None), indexA(Index (h x) := None)) = Some res"
      by (auto simp: compactLog_evict split: option.splits)
    show ?thesis
    proof (cases "e = x")
      case True
      with p show ?thesis by simp
    next
      case False
      with Cons.prems(2) have "e \<in> set es" by simp
      from Cons.IH [OF r this Cons.prems(3)]
      show ?thesis by (auto split: if_splits)
    qed
  qed
qed

lemma compactLog_result:
  "compactLog h lt rt es (logA, logB, indexB, indexA) = Some (logA', logB', indexB', indexA') \<Longrightarrow>
     logA' = filter (\<lambda>x. \<not> (x \<in> set es \<and> evictable (h x) lt rt)) logA
   \<and> logB' = filter (\<lambda>x. x \<notin> parentsOf h indexB lt rt es) logB
   \<and> indexB' = indexB |` (- (\<lambda>p. Index (h p)) ` parentsOf h indexB lt rt es)
   \<and> indexA' = indexA |` (- (\<lambda>e. Index (h e)) ` {e \<in> set es. evictable (h e) lt rt})"
proof (induction es arbitrary: logA logB indexB indexA)
  case Nil
  then show ?case by (simp add: parentsOf_def)
next
  case (Cons x es)
  show ?case
  proof (cases "evictable (h x) lt rt")
    case False
    with Cons.prems have r: "compactLog h lt rt es (logA, logB, indexB, indexA)
                               = Some (logA', logB', indexB', indexA')"
      by (simp add: compactLog_skip)
    from False have "parentsOf h indexB lt rt (x # es) = parentsOf h indexB lt rt es"
      by (auto simp: parentsOf_def)
    moreover from False have
      "{e \<in> set (x # es). evictable (h e) lt rt} = {e \<in> set es. evictable (h e) lt rt}"
      by auto
    moreover from False have
      "(\<lambda>y. \<not> (y \<in> set (x # es) \<and> evictable (h y) lt rt))
         = (\<lambda>y. \<not> (y \<in> set es \<and> evictable (h y) lt rt))"
      by auto
    ultimately show ?thesis using Cons.IH [OF r] by simp
  next
    case True
    with Cons.prems obtain p where p: "indexB (ParentIndex (h x)) = Some p"
      and r: "compactLog h lt rt es
              (filter (\<lambda>y. y \<noteq> x) logA, filter (\<lambda>y. y \<noteq> p) logB,
               indexB(Index (h p) := None), indexA(Index (h x) := None))
              = Some (logA', logB', indexB', indexA')"
      by (auto simp: compactLog_evict split: option.splits)
    let ?iB = "indexB(Index (h p) := None)"
    have same: "?iB (ParentIndex (h e)) = indexB (ParentIndex (h e))"
      if "e \<in> set es" "evictable (h e) lt rt" for e
      using compactLog_lookups [OF r that] by (auto split: if_splits)
    have P: "parentsOf h indexB lt rt (x # es) = insert p (parentsOf h ?iB lt rt es)"
    proof -
      have "parentsOf h ?iB lt rt es = parentsOf h indexB lt rt es"
        unfolding parentsOf_def using same by (metis (no_types, lifting))
      moreover have "parentsOf h indexB lt rt (x # es)
                       = insert p (parentsOf h indexB lt rt es)"
        using True p by (auto simp: parentsOf_def)
      ultimately show ?thesis by simp
    qed
    have E: "{e \<in> set (x # es). evictable (h e) lt rt}
               = insert x {e \<in> set es. evictable (h e) lt rt}"
      using True by auto
    note ih = Cons.IH [OF r]
    note a = ih [THEN conjunct1]
      and b = ih [THEN conjunct2, THEN conjunct1]
      and c = ih [THEN conjunct2, THEN conjunct2, THEN conjunct1]
      and d = ih [THEN conjunct2, THEN conjunct2, THEN conjunct2]
    have a': "logA' = filter (\<lambda>y. \<not> (y \<in> set (x # es) \<and> evictable (h y) lt rt)) logA"
      unfolding a using True by (auto intro!: filter_cong)
    have b': "logB' = filter (\<lambda>y. y \<notin> parentsOf h indexB lt rt (x # es)) logB"
      unfolding b P by (auto intro!: filter_cong)
    have c': "indexB' = indexB |` (- (\<lambda>p. Index (h p)) ` parentsOf h indexB lt rt (x # es))"
      unfolding c P by (auto simp: restrict_map_def fun_eq_iff)
    have d': "indexA' = indexA
                |` (- (\<lambda>e. Index (h e)) ` {e \<in> set (x # es). evictable (h e) lt rt})"
      unfolding d E by (auto simp: restrict_map_def fun_eq_iff)
    from a' b' c' d' show ?thesis by simp
  qed
qed

lemma compactLog_returns:
  "keyed h indexB \<Longrightarrow> parentsIndexed h indexB lt rt es \<Longrightarrow>
     compactLog h lt rt es (logA, logB, indexB, indexA) \<noteq> None"
proof (induction es arbitrary: logA logB indexB indexA)
  case Nil
  then show ?case by simp
next
  case (Cons x es)
  show ?case
  proof (cases "evictable (h x) lt rt")
    case False
    with Cons.prems(2) have "parentsIndexed h indexB lt rt es"
      by (simp add: parentsIndexed_def)
    from Cons.IH [OF Cons.prems(1) this] False show ?thesis
      by (simp add: compactLog_skip)
  next
    case True
    with Cons.prems(2) obtain p where p: "indexB (ParentIndex (h x)) = Some p"
      by (auto simp: parentsIndexed_def)
    with Cons.prems(1) have k: "Index (h p) = ParentIndex (h x)"
      by (simp add: keyed_def)
    let ?iB = "indexB(Index (h p) := None)"
    have "keyed h ?iB" using Cons.prems(1) by (auto simp: keyed_def)
    moreover have "parentsIndexed h ?iB lt rt es"
      using Cons.prems(2) True unfolding parentsIndexed_def k
      by (auto simp: image_iff dom_def)
    ultimately have "compactLog h lt rt es
              (filter (\<lambda>y. y \<noteq> x) logA, filter (\<lambda>y. y \<noteq> p) logB,
               ?iB, indexA(Index (h x) := None)) \<noteq> None"
      by (rule Cons.IH)
    with True p show ?thesis by (simp add: compactLog_evict)
  qed
qed

lemma parentsOf_Add:
  "indexToAdds h idx \<Longrightarrow> p \<in> parentsOf h idx lt rt es \<Longrightarrow> EntryType (h p) = Add"
  by (auto simp: indexToAdds_def parentsOf_def)

lemma evictable_not_Add: "evictable pd lt rt \<Longrightarrow> EntryType pd \<noteq> Add"
  by (simp add: evictable_def)

lemma restrict_restrict_compl: "(m |` (- A)) |` (- B) = m |` (- (A \<union> B))"
  by (auto simp: restrict_map_def fun_eq_iff)

lemma compactLogs_result:
  assumes ours: "indexToAdds (descriptors lc) (ourLogIndex lc)"
    and theirs: "indexToAdds (descriptors lc) (theirLogIndex lc)"
    and res: "compactLogs lc lt rt = Some lc'"
  shows "ourUpdateLog lc' =
           filter (\<lambda>x. \<not> removedFrom (descriptors lc) (ourLogIndex lc) lt rt (theirUpdateLog lc) x)
             (ourUpdateLog lc)"
    and "theirUpdateLog lc' =
           filter (\<lambda>x. \<not> removedFrom (descriptors lc) (theirLogIndex lc) lt rt (ourUpdateLog lc) x)
             (theirUpdateLog lc)"
    and "ourLogIndex lc' = ourLogIndex lc
           |` (- (\<lambda>x. Index (descriptors lc x))
                  ` ({x \<in> set (ourUpdateLog lc). evictable (descriptors lc x) lt rt}
                     \<union> parentsOf (descriptors lc) (ourLogIndex lc) lt rt (theirUpdateLog lc)))"
    and "theirLogIndex lc' = theirLogIndex lc
           |` (- (\<lambda>x. Index (descriptors lc x))
                  ` ({x \<in> set (theirUpdateLog lc). evictable (descriptors lc x) lt rt}
                     \<union> parentsOf (descriptors lc) (theirLogIndex lc) lt rt (ourUpdateLog lc)))"
    and "lc' = lc\<lparr>ourUpdateLog := ourUpdateLog lc', theirUpdateLog := theirUpdateLog lc',
                  ourLogIndex := ourLogIndex lc', theirLogIndex := theirLogIndex lc'\<rparr>"
proof -
  let ?h = "descriptors lc"
  let ?ev = "\<lambda>x. evictable (?h x) lt rt"
  let ?P1 = "parentsOf ?h (theirLogIndex lc) lt rt (ourUpdateLog lc)"
  let ?P2 = "parentsOf ?h (ourLogIndex lc) lt rt (theirUpdateLog lc)"
  from res obtain ourLog1 theirLog1 theirIndex1 ourIndex1 theirLog2 ourLog2 ourIndex2 theirIndex2
    where p1: "compactLog ?h lt rt (ourUpdateLog lc)
                 (ourUpdateLog lc, theirUpdateLog lc, theirLogIndex lc, ourLogIndex lc)
               = Some (ourLog1, theirLog1, theirIndex1, ourIndex1)"
      and p2: "compactLog ?h lt rt theirLog1 (theirLog1, ourLog1, ourIndex1, theirIndex1)
               = Some (theirLog2, ourLog2, ourIndex2, theirIndex2)"
      and lc': "lc' = lc\<lparr>ourUpdateLog := ourLog2, theirUpdateLog := theirLog2,
                         ourLogIndex := ourIndex2, theirLogIndex := theirIndex2\<rparr>"
    by (auto simp: compactLogs_def split: option.splits prod.splits)
  note r1 = compactLog_result [OF p1]
  note r2 = compactLog_result [OF p2]
  have o1: "ourLog1 = filter (\<lambda>x. \<not> ?ev x) (ourUpdateLog lc)"
    using r1 [THEN conjunct1] by (auto intro: filter_cong)
  have t1: "theirLog1 = filter (\<lambda>x. x \<notin> ?P1) (theirUpdateLog lc)"
    using r1 [THEN conjunct2, THEN conjunct1] .
  have ti1: "theirIndex1 = theirLogIndex lc |` (- (\<lambda>p. Index (?h p)) ` ?P1)"
    using r1 [THEN conjunct2, THEN conjunct2, THEN conjunct1] .
  have oi1: "ourIndex1 = ourLogIndex lc
               |` (- (\<lambda>e. Index (?h e)) ` {e \<in> set (ourUpdateLog lc). ?ev e})"
    using r1 [THEN conjunct2, THEN conjunct2, THEN conjunct2] .
  have notP1: "x \<notin> ?P1" if "?ev x" for x
    using parentsOf_Add [OF theirs, of x lt rt "ourUpdateLog lc"] evictable_not_Add [OF that]
    by blast
  have ev1: "{e \<in> set theirLog1. ?ev e} = {e \<in> set (theirUpdateLog lc). ?ev e}"
    unfolding t1 using notP1 by auto
  have P2: "parentsOf ?h ourIndex1 lt rt theirLog1 = ?P2"
  proof (intro set_eqI iffI)
    fix p assume "p \<in> parentsOf ?h ourIndex1 lt rt theirLog1"
    then obtain e where "e \<in> set theirLog1" "?ev e" "ourIndex1 (ParentIndex (?h e)) = Some p"
      by (auto simp: parentsOf_def)
    then have "e \<in> set (theirUpdateLog lc)" "ourLogIndex lc (ParentIndex (?h e)) = Some p"
      by (auto simp: t1 oi1 restrict_map_def split: if_splits)
    with \<open>?ev e\<close> show "p \<in> ?P2" by (auto simp: parentsOf_def)
  next
    fix p assume "p \<in> ?P2"
    then obtain e where e: "e \<in> set (theirUpdateLog lc)" "?ev e"
      "ourLogIndex lc (ParentIndex (?h e)) = Some p"
      by (auto simp: parentsOf_def)
    with ev1 have e1: "e \<in> set theirLog1" by blast
    from compactLog_lookups [OF p2 e1 e(2)] e(3)
    have "ourIndex1 (ParentIndex (?h e)) = Some p"
      by (auto simp: oi1 restrict_map_def split: if_splits)
    with e1 e(2) show "p \<in> parentsOf ?h ourIndex1 lt rt theirLog1"
      by (auto simp: parentsOf_def)
  qed
  have o2: "ourLog2 = filter (\<lambda>x. x \<notin> ?P2) ourLog1"
    using r2 [THEN conjunct2, THEN conjunct1] unfolding P2 .
  have t2: "theirLog2 = filter (\<lambda>x. \<not> ?ev x) theirLog1"
    using r2 [THEN conjunct1] by (auto intro: filter_cong)
  have oi2: "ourIndex2 = ourIndex1 |` (- (\<lambda>p. Index (?h p)) ` ?P2)"
    using r2 [THEN conjunct2, THEN conjunct2, THEN conjunct1] unfolding P2 .
  have ti2: "theirIndex2 = theirIndex1
               |` (- (\<lambda>e. Index (?h e)) ` {e \<in> set (theirUpdateLog lc). ?ev e})"
    using r2 [THEN conjunct2, THEN conjunct2, THEN conjunct2] unfolding ev1 .
  have rem_ours: "removedFrom ?h (ourLogIndex lc) lt rt (theirUpdateLog lc) x
                    \<longleftrightarrow> ?ev x \<or> x \<in> ?P2" for x
    using parentsOf_Add [OF ours, of x lt rt "theirUpdateLog lc"] evictable_not_Add [of "?h x" lt rt]
    by (auto simp: removedFrom_def)
  have rem_theirs: "removedFrom ?h (theirLogIndex lc) lt rt (ourUpdateLog lc) x
                    \<longleftrightarrow> ?ev x \<or> x \<in> ?P1" for x
    using parentsOf_Add [OF theirs, of x lt rt "ourUpdateLog lc"] evictable_not_Add [of "?h x" lt rt]
    by (auto simp: removedFrom_def)
  show "ourUpdateLog lc' =
           filter (\<lambda>x. \<not> removedFrom ?h (ourLogIndex lc) lt rt (theirUpdateLog lc) x)
             (ourUpdateLog lc)"
    by (auto simp: lc' o2 o1 rem_ours intro: filter_cong)
  show "theirUpdateLog lc' =
           filter (\<lambda>x. \<not> removedFrom ?h (theirLogIndex lc) lt rt (ourUpdateLog lc) x)
             (theirUpdateLog lc)"
    by (auto simp: lc' t2 t1 rem_theirs intro: filter_cong)
  show "ourLogIndex lc' = ourLogIndex lc
           |` (- (\<lambda>x. Index (?h x)) ` ({x \<in> set (ourUpdateLog lc). ?ev x} \<union> ?P2))"
    by (simp add: lc' oi2 oi1 restrict_restrict_compl image_Un)
  show "theirLogIndex lc' = theirLogIndex lc
           |` (- (\<lambda>x. Index (?h x)) ` ({x \<in> set (theirUpdateLog lc). ?ev x} \<union> ?P1))"
    by (simp add: lc' ti2 ti1 restrict_restrict_compl image_Un Un_commute)
  show "lc' = lc\<lparr>ourUpdateLog := ourUpdateLog lc', theirUpdateLog := theirUpdateLog lc',
                  ourLogIndex := ourLogIndex lc', theirLogIndex := theirLogIndex lc'\<rparr>"
    by (simp add: lc')
qed

lemma compactLogs_returns:
  assumes ko: "keyed (descriptors lc) (ourLogIndex lc)"
    and kt: "keyed (descriptors lc) (theirLogIndex lc)"
    and theirs: "indexToAdds (descriptors lc) (theirLogIndex lc)"
    and po: "parentsIndexed (descriptors lc) (theirLogIndex lc) lt rt (ourUpdateLog lc)"
    and pt: "parentsIndexed (descriptors lc) (ourLogIndex lc) lt rt (theirUpdateLog lc)"
    and un: "removalsUnindexed (descriptors lc) (ourLogIndex lc) (ourUpdateLog lc)"
  shows "compactLogs lc lt rt \<noteq> None"
proof -
  let ?h = "descriptors lc"
  let ?ev = "\<lambda>x. evictable (?h x) lt rt"
  from compactLog_returns [OF kt po, of "ourUpdateLog lc" "theirUpdateLog lc" "ourLogIndex lc"]
  obtain ourLog1 theirLog1 theirIndex1 ourIndex1
    where p1: "compactLog ?h lt rt (ourUpdateLog lc)
                 (ourUpdateLog lc, theirUpdateLog lc, theirLogIndex lc, ourLogIndex lc)
               = Some (ourLog1, theirLog1, theirIndex1, ourIndex1)"
    by auto
  note r1 = compactLog_result [OF p1]
  have t1: "theirLog1 = filter (\<lambda>x. x \<notin> parentsOf ?h (theirLogIndex lc) lt rt (ourUpdateLog lc))
                         (theirUpdateLog lc)"
    using r1 [THEN conjunct2, THEN conjunct1] .
  have oi1: "ourIndex1 = ourLogIndex lc
               |` (- (\<lambda>e. Index (?h e)) ` {e \<in> set (ourUpdateLog lc). ?ev e})"
    using r1 [THEN conjunct2, THEN conjunct2, THEN conjunct2] .
  have k1: "keyed ?h ourIndex1"
    using ko by (auto simp: keyed_def oi1 restrict_map_def split: if_splits)
  have dom1: "ParentIndex (?h e) \<in> dom ourIndex1"
    if "e \<in> set theirLog1" "?ev e" for e
  proof -
    from that have "e \<in> set (theirUpdateLog lc)" by (simp add: t1)
    with pt that(2) obtain p where p: "ourLogIndex lc (ParentIndex (?h e)) = Some p"
      by (auto simp: parentsIndexed_def)
    have "ParentIndex (?h e) \<notin> (\<lambda>e. Index (?h e)) ` {e \<in> set (ourUpdateLog lc). ?ev e}"
    proof
      assume "ParentIndex (?h e) \<in> (\<lambda>e. Index (?h e)) ` {e \<in> set (ourUpdateLog lc). ?ev e}"
      then obtain x where "x \<in> set (ourUpdateLog lc)" "?ev x" "ParentIndex (?h e) = Index (?h x)"
        by auto
      with un evictable_not_Add have "ourLogIndex lc (ParentIndex (?h e)) = None"
        by (auto simp: removalsUnindexed_def)
      with p show False by simp
    qed
    with p show ?thesis by (auto simp: oi1 restrict_map_def)
  qed
  have eq: "filter ?ev theirLog1
          = filter (\<lambda>x. x \<notin> parentsOf ?h (theirLogIndex lc) lt rt (ourUpdateLog lc))
              (filter ?ev (theirUpdateLog lc))"
    unfolding t1 by (simp add: conj_commute)
  have "distinct (map (\<lambda>e. ParentIndex (?h e)) (filter ?ev theirLog1))"
    unfolding eq using pt by (intro distinct_map_filter [where xs = "filter ?ev (theirUpdateLog lc)"])
      (simp add: parentsIndexed_def)
  with dom1 have "parentsIndexed ?h ourIndex1 lt rt theirLog1"
    by (simp add: parentsIndexed_def)
  from compactLog_returns [OF k1 this, of theirLog1 ourLog1 theirIndex1] p1
  show ?thesis
    by (auto simp: compactLogs_def split: option.splits prod.splits)
qed

text \<open>
  What compaction does when it returns.  When the index maps hold Add entries only, a
  call of \<open>compactLogs\<close> that returns leaves in each log, in their order, exactly the entries that are not removed:
  a Settle or Timeout entry is removed exactly when both its remove heights are
  non-zero, the remote tail is at least its remote remove height and the local tail is
  at least its local remove height; an Add entry is removed exactly when it is the
  parent, through its log's index map, of such an entry of the other log, and is
  otherwise left in place.  The \<open>Index\<close> of every removed entry is deleted from the index
  map of its log, and nothing else in the channel changes.  The call returns whenever
  the index maps hold their entries under the entries' own indices, every evictable
  entry has its parent in the index map, no two evictable entries of a log share a
  parent index, and no Settle or Timeout entry of our log has the index of a key of our
  index map.
\<close>

lemma compactLogs_returning:
  assumes "indexToAdds (descriptors lc) (ourLogIndex lc)"
    and "indexToAdds (descriptors lc) (theirLogIndex lc)"
  shows
  "(compactLogs lc localChainTail remoteChainTail = Some lc' \<longrightarrow>
      ourUpdateLog lc' =
        filter (\<lambda>x. \<not> removedFrom (descriptors lc) (ourLogIndex lc) localChainTail
                        remoteChainTail (theirUpdateLog lc) x) (ourUpdateLog lc)
    \<and> theirUpdateLog lc' =
        filter (\<lambda>x. \<not> removedFrom (descriptors lc) (theirLogIndex lc) localChainTail
                        remoteChainTail (ourUpdateLog lc) x) (theirUpdateLog lc)
    \<and> ourLogIndex lc' = ourLogIndex lc
        |` (- (\<lambda>x. Index (descriptors lc x))
               ` ({x \<in> set (ourUpdateLog lc).
                     evictable (descriptors lc x) localChainTail remoteChainTail}
                  \<union> parentsOf (descriptors lc) (ourLogIndex lc) localChainTail
                       remoteChainTail (theirUpdateLog lc)))
    \<and> theirLogIndex lc' = theirLogIndex lc
        |` (- (\<lambda>x. Index (descriptors lc x))
               ` ({x \<in> set (theirUpdateLog lc).
                     evictable (descriptors lc x) localChainTail remoteChainTail}
                  \<union> parentsOf (descriptors lc) (theirLogIndex lc) localChainTail
                       remoteChainTail (ourUpdateLog lc)))
    \<and> lc' = lc\<lparr>ourUpdateLog := ourUpdateLog lc', theirUpdateLog := theirUpdateLog lc',
                ourLogIndex := ourLogIndex lc', theirLogIndex := theirLogIndex lc'\<rparr>)
   \<and> (keyed (descriptors lc) (ourLogIndex lc) \<and> keyed (descriptors lc) (theirLogIndex lc)
      \<and> parentsIndexed (descriptors lc) (theirLogIndex lc) localChainTail remoteChainTail
           (ourUpdateLog lc)
      \<and> parentsIndexed (descriptors lc) (ourLogIndex lc) localChainTail remoteChainTail
           (theirUpdateLog lc)
      \<and> removalsUnindexed (descriptors lc) (ourLogIndex lc) (ourUpdateLog lc)
      \<longrightarrow> compactLogs lc localChainTail remoteChainTail \<noteq> None)"
  using compactLogs_result [OF assms, of localChainTail remoteChainTail lc']
    compactLogs_returns [OF _ _ assms(2), of localChainTail remoteChainTail]
  by blast

lemma settledCommitted_fields:
  "ourUpdateLog settledCommitted = [Suc 0]"
  "theirUpdateLog settledCommitted = [0]"
  "theirLogIndex settledCommitted = [0 \<mapsto> 0]"
  "ourLogIndex settledCommitted = Map.empty"
  "descriptors settledCommitted 0 =
     (newDescriptor Add (replicate 32 43) 600 100 0 0)
        \<lparr>settled := True, addCommitHeightRemote := 2, addCommitHeightLocal := 2\<rparr>"
  "descriptors settledCommitted (Suc 0) =
     (newDescriptor Settle [] 0 100 0 0)
        \<lparr>removeCommitHeightRemote := 3, removeCommitHeightLocal := 3\<rparr>"
  by (simp_all add: settledCommitted_def settledUncommitted_def exampleChannel_def)

lemma compactLogs_settledCommitted:
  "ourUpdateLog settledCommitted = [1] \<and> theirUpdateLog settledCommitted = [0]
   \<and> theirLogIndex settledCommitted 0 = Some 0
   \<and> (\<exists>lc'. compactLogs settledCommitted 3 3 = Some lc'
         \<and> ourUpdateLog lc' = [] \<and> theirUpdateLog lc' = [] \<and> theirLogIndex lc' 0 = None)
   \<and> (\<exists>lc'. compactLogs settledCommitted 2 2 = Some lc'
         \<and> ourUpdateLog lc' = [1] \<and> theirUpdateLog lc' = [0] \<and> theirLogIndex lc' 0 = Some 0)"
proof -
  let ?sc = settledCommitted
  let ?h = "descriptors settledCommitted"
  have et: "EntryType (?h 0) = Add" "EntryType (?h (Suc 0)) = Settle"
    and ix: "Index (?h 0) = 0" "ParentIndex (?h (Suc 0)) = 0" "Index (?h (Suc 0)) = 0"
    by (simp_all add: settledCommitted_fields newDescriptor_def)
  have a1: "indexToAdds ?h (ourLogIndex ?sc)" and a2: "indexToAdds ?h (theirLogIndex ?sc)"
    using et by (auto simp: indexToAdds_def settledCommitted_fields(3,4) split: if_splits)
  have ev3: "evictable (?h (Suc 0)) 3 3" "\<not> evictable (?h 0) 3 3"
    and ev2: "\<not> evictable (?h (Suc 0)) 2 2" "\<not> evictable (?h 0) 2 2"
    by (simp_all add: evictable_def settledCommitted_fields newDescriptor_def)
  have pre: "keyed ?h (ourLogIndex ?sc) \<and> keyed ?h (theirLogIndex ?sc)
      \<and> parentsIndexed ?h (theirLogIndex ?sc) t t (ourUpdateLog ?sc)
      \<and> parentsIndexed ?h (ourLogIndex ?sc) t t (theirUpdateLog ?sc)
      \<and> removalsUnindexed ?h (ourLogIndex ?sc) (ourUpdateLog ?sc)" for t
    using et ix
    by (auto simp: keyed_def parentsIndexed_def removalsUnindexed_def settledCommitted_fields(1-4)
        evictable_def split: if_splits)
  note safety = compactLogs_returning [OF a1 a2]
  have p3: "parentsOf ?h (theirLogIndex ?sc) 3 3 (ourUpdateLog ?sc) = {0}"
    "parentsOf ?h (ourLogIndex ?sc) 3 3 (theirUpdateLog ?sc) = {}"
    using ev3 ix by (auto simp: parentsOf_def settledCommitted_fields(1-4))
  have p2: "parentsOf ?h (theirLogIndex ?sc) 2 2 (ourUpdateLog ?sc) = {}"
    "parentsOf ?h (ourLogIndex ?sc) 2 2 (theirUpdateLog ?sc) = {}"
    using ev2 by (auto simp: parentsOf_def settledCommitted_fields(1-4))
  have rem3: "removedFrom ?h (ourLogIndex ?sc) 3 3 (theirUpdateLog ?sc) (Suc 0)"
    "removedFrom ?h (theirLogIndex ?sc) 3 3 (ourUpdateLog ?sc) 0"
    using ev3 et by (simp_all add: removedFrom_def p3)
  have rem2: "\<not> removedFrom ?h (ourLogIndex ?sc) 2 2 (theirUpdateLog ?sc) (Suc 0)"
    "\<not> removedFrom ?h (theirLogIndex ?sc) 2 2 (ourUpdateLog ?sc) 0"
    using ev2 et by (simp_all add: removedFrom_def p2)
  from safety [of 3 3, THEN conjunct2, THEN mp, OF pre]
  obtain lc3 where c3: "compactLogs ?sc 3 3 = Some lc3" by auto
  note r3 = safety [of 3 3 lc3, THEN conjunct1, THEN mp, OF c3]
  have o3: "ourUpdateLog lc3 = []"
    unfolding r3 [THEN conjunct1] using rem3 by (simp add: settledCommitted_fields(1))
  have t3: "theirUpdateLog lc3 = []"
    unfolding r3 [THEN conjunct2, THEN conjunct1] using rem3
    by (simp add: settledCommitted_fields(2))
  have "(0 :: 32 word) \<in> (\<lambda>x. Index (?h x))
          ` ({x \<in> set (theirUpdateLog ?sc). evictable (?h x) 3 3} \<union> {0})"
    using ix(1) by (intro image_eqI [where x = 0]) simp_all
  then have i3: "theirLogIndex lc3 0 = None"
    unfolding r3 [THEN conjunct2, THEN conjunct2, THEN conjunct2, THEN conjunct1] p3
    by (simp add: restrict_map_def ix(1))
  from c3 o3 t3 i3 have A: "\<exists>lc'. compactLogs ?sc 3 3 = Some lc'
         \<and> ourUpdateLog lc' = [] \<and> theirUpdateLog lc' = [] \<and> theirLogIndex lc' 0 = None"
    by (intro exI [of _ lc3] conjI)
  from safety [of 2 2, THEN conjunct2, THEN mp, OF pre]
  obtain lc2 where c2: "compactLogs ?sc 2 2 = Some lc2" by auto
  note r2 = safety [of 2 2 lc2, THEN conjunct1, THEN mp, OF c2]
  have o2: "ourUpdateLog lc2 = [1]"
    unfolding r2 [THEN conjunct1] using rem2 by (simp add: settledCommitted_fields(1))
  have t2: "theirUpdateLog lc2 = [0]"
    unfolding r2 [THEN conjunct2, THEN conjunct1] using rem2
    by (simp add: settledCommitted_fields(2))
  have e2: "{x \<in> set (theirUpdateLog ?sc). evictable (?h x) 2 2} = {}"
    using ev2 by (auto simp: settledCommitted_fields(2))
  have i2: "theirLogIndex lc2 0 = Some 0"
    unfolding r2 [THEN conjunct2, THEN conjunct2, THEN conjunct2, THEN conjunct1] p2 e2
    by (simp add: restrict_map_def settledCommitted_fields(3))
  from c2 o2 t2 i2 have B: "\<exists>lc'. compactLogs ?sc 2 2 = Some lc'
         \<and> ourUpdateLog lc' = [1] \<and> theirUpdateLog lc' = [0] \<and> theirLogIndex lc' 0 = Some 0"
    by (intro exI [of _ lc2] conjI)
  from A B show ?thesis by (simp add: settledCommitted_fields(1-3))
qed

lemmas run_eval =
  ReceiveRevocation_def SignNextCommitment_def ReceiveNewCommitment_def
  RevokeCurrentCommitment_def AddHTLC_def ReceiveHTLCSettle_def exampleChannel_def
  exampleHTLC_def validRevocation_def zeroHash_def specElkremAddNext_def tail_def
  advanceTail_def compactLogs_def exampleHash_def evictable_def compactLog.simps

lemma settled_twice:
  "map_option
     (\<lambda>lc. (ourUpdateLog lc, theirUpdateLog lc, ourLogIndex lc 0,
            map (\<lambda>a. (EntryType (descriptors lc a), ParentIndex (descriptors lc a),
                       evictable (descriptors lc a) 1 1)) (theirUpdateLog lc),
            map height (commitments (localCommitChain lc)),
            map height (commitments (remoteCommitChain lc))))
     (run exampleEnv
        [CallReceiveRevocation windowExtension, CallAddHTLC exampleHTLC,
         CallReceiveHTLCSettle (replicate 32 42) 0, CallReceiveHTLCSettle (replicate 32 42) 0,
         CallSignNextCommitment, CallReceiveNewCommitment [] 1, CallRevokeCurrentCommitment]
        exampleChannel)
   = Some ([0], [1, 2], Some 0, [(Settle, 0, True), (Settle, 0, True)], [1], [0, 1])"
  by (simp add: run_eval example_eval)

lemma settled_twice_compact:
  "Option.bind
     (run exampleEnv
        [CallReceiveRevocation windowExtension, CallAddHTLC exampleHTLC,
         CallReceiveHTLCSettle (replicate 32 42) 0, CallReceiveHTLCSettle (replicate 32 42) 0,
         CallSignNextCommitment, CallReceiveNewCommitment [] 1, CallRevokeCurrentCommitment]
        exampleChannel)
     (\<lambda>lc. compactLogs lc 1 1) = None"
  by (simp add: run_eval example_eval)

lemma settled_twice_revoked:
  "run exampleEnv
     [CallReceiveRevocation windowExtension, CallAddHTLC exampleHTLC,
      CallReceiveHTLCSettle (replicate 32 42) 0, CallReceiveHTLCSettle (replicate 32 42) 0,
      CallSignNextCommitment, CallReceiveNewCommitment [] 1, CallRevokeCurrentCommitment,
      CallReceiveRevocation validRevocation]
     exampleChannel = None"
  by (simp add: run_eval example_eval)

lemma settled_once_revoked:
  "map_option (\<lambda>lc. (ourUpdateLog lc, theirUpdateLog lc, ourLogIndex lc 0))
     (run exampleEnv
        [CallReceiveRevocation windowExtension, CallAddHTLC exampleHTLC,
         CallReceiveHTLCSettle (replicate 32 42) 0,
         CallSignNextCommitment, CallReceiveNewCommitment [] 1, CallRevokeCurrentCommitment,
         CallReceiveRevocation validRevocation]
        exampleChannel) = Some ([], [], None)"
  by (simp add: run_eval example_eval)

text \<open>
  Claim C5 states that \<open>compactLogs\<close> removes a Settle or Timeout entry together with
  its parent Add exactly when both remove heights are set and reached by the tails.
  The code does not do so when two entries that meet the condition have the same
  parent.  \<open>ReceiveHTLCSettle\<close>, unlike \<open>SettleHTLC\<close>, does not mark the Add as settled,
  so the same Add can be settled twice.  After a window extension, \<open>AddHTLC\<close>, two calls
  of \<open>ReceiveHTLCSettle\<close> for index 0 and one round of \<open>SignNextCommitment\<close>,
  \<open>ReceiveNewCommitment\<close> and \<open>RevokeCurrentCommitment\<close>, both Settle entries of their log
  meet the condition at the tails 1 and 1.  Compaction removes the first with the Add
  and deletes index 0; for the second, \<open>indexB[htlc.ParentIndex]\<close> is \<open>nil\<close> and reading
  its value panics.  So neither \<open>compactLogs\<close> nor \<open>ReceiveRevocation\<close> with the valid
  revocation, which calls it, returns.  With a single \<open>ReceiveHTLCSettle\<close> the same run
  ends with both logs and the index empty.
\<close>

theorem log_compaction_double_settle:
  "map_option
     (\<lambda>lc. (ourUpdateLog lc, theirUpdateLog lc, ourLogIndex lc 0,
            map (\<lambda>a. (EntryType (descriptors lc a), ParentIndex (descriptors lc a),
                       evictable (descriptors lc a) 1 1)) (theirUpdateLog lc),
            map height (commitments (localCommitChain lc)),
            map height (commitments (remoteCommitChain lc))))
     (run exampleEnv
        [CallReceiveRevocation windowExtension, CallAddHTLC exampleHTLC,
         CallReceiveHTLCSettle (replicate 32 42) 0, CallReceiveHTLCSettle (replicate 32 42) 0,
         CallSignNextCommitment, CallReceiveNewCommitment [] 1, CallRevokeCurrentCommitment]
        exampleChannel)
     = Some ([0], [1, 2], Some 0, [(Settle, 0, True), (Settle, 0, True)], [1], [0, 1])
   \<and> Option.bind
       (run exampleEnv
          [CallReceiveRevocation windowExtension, CallAddHTLC exampleHTLC,
           CallReceiveHTLCSettle (replicate 32 42) 0, CallReceiveHTLCSettle (replicate 32 42) 0,
           CallSignNextCommitment, CallReceiveNewCommitment [] 1, CallRevokeCurrentCommitment]
          exampleChannel)
       (\<lambda>lc. compactLogs lc 1 1) = None
   \<and> run exampleEnv
       [CallReceiveRevocation windowExtension, CallAddHTLC exampleHTLC,
        CallReceiveHTLCSettle (replicate 32 42) 0, CallReceiveHTLCSettle (replicate 32 42) 0,
        CallSignNextCommitment, CallReceiveNewCommitment [] 1, CallRevokeCurrentCommitment,
        CallReceiveRevocation validRevocation]
       exampleChannel = None
   \<and> map_option (\<lambda>lc. (ourUpdateLog lc, theirUpdateLog lc, ourLogIndex lc 0))
       (run exampleEnv
          [CallReceiveRevocation windowExtension, CallAddHTLC exampleHTLC,
           CallReceiveHTLCSettle (replicate 32 42) 0,
           CallSignNextCommitment, CallReceiveNewCommitment [] 1, CallRevokeCurrentCommitment,
           CallReceiveRevocation validRevocation]
          exampleChannel) = Some ([], [], None)"
  using settled_twice settled_twice_compact settled_twice_revoked settled_once_revoked
  by (intro conjI)


subsection \<open>Reachable channels\<close>

text \<open>
  The operations change the entries of the store only in their heights and flags, they
  add to an index map only a fresh Add entry under its own index, and compaction only
  takes keys out of the index maps.
\<close>

lemma sameShape_refl: "sameShape h h"
  by (simp add: sameShape_def)

lemma sameShape_trans: "sameShape h h1 \<Longrightarrow> sameShape h1 h2 \<Longrightarrow> sameShape h h2"
  by (simp add: sameShape_def)

lemma sameShape_upd:
  "EntryType pd = EntryType (h a) \<Longrightarrow> Index pd = Index (h a) \<Longrightarrow> sameShape h (h(a := pd))"
  by (simp add: sameShape_def)

lemma processRemoveEntry_shape:
  "processRemoveEntry pd ob tb nh rc inc = (pd', ob', tb') \<Longrightarrow>
     EntryType pd' = EntryType pd \<and> Index pd' = Index pd"
  by (auto simp: processRemoveEntry_def Let_def split: if_splits prod.splits)

lemma processAddEntry_shape:
  "processAddEntry pd ob tb nh rc inc = (pd', ob', tb') \<Longrightarrow>
     EntryType pd' = EntryType pd \<and> Index pd' = Index pd"
  by (auto simp: processAddEntry_def Let_def split: if_splits prod.splits)

lemma evalRemoves_shape:
  "evalRemoves idx nh rc inc es (h, ob, tb, skip) = Some (h', ob', tb', skip') \<Longrightarrow>
     sameShape h h'"
proof (induction es arbitrary: h ob tb skip)
  case Nil
  then show ?case by (simp add: sameShape_refl)
next
  case (Cons x es)
  show ?case
  proof (cases "EntryType (h x) = Add")
    case True
    with Cons show ?thesis by simp
  next
    case False
    with Cons.prems obtain parent pd ob1 tb1 where
      p: "processRemoveEntry (h x) ob tb nh rc inc = (pd, ob1, tb1)"
      and r: "evalRemoves idx nh rc inc es (h(x := pd), ob1, tb1, Index (h parent) # skip)
              = Some (h', ob', tb', skip')"
      by (auto simp: Let_def split: option.splits prod.splits)
    from processRemoveEntry_shape [OF p] have "sameShape h (h(x := pd))"
      by (intro sameShape_upd) simp_all
    with Cons.IH [OF r] show ?thesis by (rule sameShape_trans [rotated])
  qed
qed

lemma evalAdds_shape:
  "evalAdds skip nh rc inc es (h, ob, tb, new) = (h', ob', tb', new') \<Longrightarrow> sameShape h h'"
proof (induction es arbitrary: h ob tb new)
  case Nil
  then show ?case by (simp add: sameShape_refl)
next
  case (Cons x es)
  show ?case
  proof (cases "EntryType (h x) \<noteq> Add \<or> Index (h x) \<in> set skip")
    case True
    with Cons show ?thesis by auto
  next
    case False
    with Cons.prems obtain pd ob1 tb1 where
      p: "processAddEntry (h x) ob tb nh rc inc = (pd, ob1, tb1)"
      and r: "evalAdds skip nh rc inc es (h(x := pd), ob1, tb1, new @ [x]) = (h', ob', tb', new')"
      by (auto simp: Let_def split: prod.splits)
    from processAddEntry_shape [OF p] have "sameShape h (h(x := pd))"
      by (intro sameShape_upd) simp_all
    with Cons.IH [OF r] show ?thesis by (rule sameShape_trans [rotated])
  qed
qed

lemma evaluateHTLCView_shape:
  assumes "evaluateHTLCView lc view ob tb nh rc = Some (view', ob', tb', lc')"
  shows "\<exists>h. lc' = lc\<lparr>descriptors := h\<rparr> \<and> sameShape (descriptors lc) h"
proof -
  from assms obtain h1 ob1 tb1 skipThem h2 ob2 tb2 skipUs h3 ob3 tb3 newOurs h4 newTheirs where
    1: "evalRemoves (theirLogIndex lc) nh rc True (ourUpdates view) (descriptors lc, ob, tb, [])
          = Some (h1, ob1, tb1, skipThem)"
    and 2: "evalRemoves (ourLogIndex lc) nh rc False (theirUpdates view) (h1, ob1, tb1, [])
          = Some (h2, ob2, tb2, skipUs)"
    and 3: "evalAdds skipUs nh rc False (ourUpdates view) (h2, ob2, tb2, [])
          = (h3, ob3, tb3, newOurs)"
    and 4: "evalAdds skipThem nh rc True (theirUpdates view) (h3, ob3, tb3, [])
          = (h4, ob', tb', newTheirs)"
    and l: "lc' = lc\<lparr>descriptors := h4\<rparr>"
    unfolding evaluateHTLCView_def Let_def
    by (auto split: option.splits prod.splits)
  from evalRemoves_shape [OF 1] evalRemoves_shape [OF 2] evalAdds_shape [OF 3]
    evalAdds_shape [OF 4]
  have "sameShape (descriptors lc) h4" by (blast intro: sameShape_trans)
  with l show ?thesis by blast
qed

lemma fetchCommitmentView_shape:
  assumes "fetchCommitmentView e lc rc oi ti rk rh = Some (r, lc')"
  shows "\<exists>h. lc' = lc\<lparr>descriptors := h\<rparr> \<and> sameShape (descriptors lc) h"
  using assms unfolding fetchCommitmentView_def Let_def
  by (auto split: option.splits sum.splits prod.splits dest!: evaluateHTLCView_shape)

lemma forwardScan_shape:
  "forwardScan rt lt es (h, fwd) = (h', fwd') \<Longrightarrow> sameShape h h'"
proof (induction es arbitrary: h fwd)
  case Nil
  then show ?case by (simp add: sameShape_refl)
next
  case (Cons x es)
  have u: "sameShape h (h(x := (h x)\<lparr>isForwarded := True\<rparr>))"
    by (intro sameShape_upd) simp_all
  from Cons.prems show ?case
    by (auto simp: Let_def split: if_splits dest!: Cons.IH
        intro: sameShape_trans [OF u])
qed

lemma indexedAdds_shape:
  "indexedAdds h n idx \<Longrightarrow> sameShape h h' \<Longrightarrow> indexedAdds h' n idx"
  by (simp add: indexedAdds_def sameShape_def)

lemma indexedAdds_le:
  "indexedAdds h n idx \<Longrightarrow> idx' \<subseteq>\<^sub>m idx \<Longrightarrow> indexedAdds h n idx'"
  by (auto simp: indexedAdds_def map_le_def dom_def)

lemma compactLog_le:
  "compactLog h lt rt es (logA, logB, indexB, indexA) = Some (logA', logB', indexB', indexA') \<Longrightarrow>
     indexB' \<subseteq>\<^sub>m indexB \<and> indexA' \<subseteq>\<^sub>m indexA"
proof (induction es arbitrary: logA logB indexB indexA)
  case Nil
  then show ?case by simp
next
  case (Cons x es)
  show ?case
  proof (cases "evictable (h x) lt rt")
    case False
    with Cons show ?thesis by (auto simp: compactLog_skip)
  next
    case True
    with Cons.prems obtain p where
      r: "compactLog h lt rt es
              (filter (\<lambda>y. y \<noteq> x) logA, filter (\<lambda>y. y \<noteq> p) logB,
               indexB(Index (h p) := None), indexA(Index (h x) := None))
          = Some (logA', logB', indexB', indexA')"
      by (auto simp: compactLog_evict split: option.splits)
    have "indexB(Index (h p) := None) \<subseteq>\<^sub>m indexB" "indexA(Index (h x) := None) \<subseteq>\<^sub>m indexA"
      by (auto simp: map_le_def)
    with Cons.IH [OF r] show ?thesis by (blast intro: map_le_trans)
  qed
qed

lemma compactLogs_le:
  assumes "compactLogs lc lt rt = Some lc'"
  shows "ourLogIndex lc' \<subseteq>\<^sub>m ourLogIndex lc \<and> theirLogIndex lc' \<subseteq>\<^sub>m theirLogIndex lc
       \<and> descriptors lc' = descriptors lc \<and> nextAddr lc' = nextAddr lc"
  using assms unfolding compactLogs_def
  by (auto split: option.splits prod.splits dest!: compactLog_le intro: map_le_trans)

lemma indexInv_descriptors:
  "indexInv lc \<Longrightarrow> sameShape (descriptors lc) h \<Longrightarrow> indexInv (lc\<lparr>descriptors := h\<rparr>)"
  by (auto simp: indexInv_def intro: indexedAdds_shape)

lemma indexedAdds_Suc: "indexedAdds h n idx \<Longrightarrow> indexedAdds h (Suc n) idx"
  by (auto simp: indexedAdds_def less_Suc_eq)

lemma indexedAdds_fresh:
  "indexedAdds h n idx \<Longrightarrow> indexedAdds (h(n := pd)) (Suc n) idx"
  by (auto simp: indexedAdds_def less_Suc_eq)

lemma indexedAdds_insert:
  "indexedAdds h n idx \<Longrightarrow> EntryType pd = Add \<Longrightarrow>
     indexedAdds (h(n := pd)) (Suc n) (idx(Index pd \<mapsto> n))"
  by (auto simp: indexedAdds_def less_Suc_eq)

lemma SignNextCommitment_indexInv:
  assumes "indexInv lc" "SignNextCommitment e lc = Some (r, lc')"
  shows "indexInv lc'"
proof -
  from assms(2) have "\<exists>h. sameShape (descriptors lc) h
      \<and> (lc' = lc\<lparr>descriptors := h\<rparr>
         \<or> (\<exists>ch u w. lc' = lc\<lparr>descriptors := h, remoteCommitChain := ch,
                              usedRevocations := u, revocationWindow := w\<rparr>))"
    unfolding SignNextCommitment_def Let_def
    by (auto split: list.splits option.splits sum.splits prod.splits if_splits
        dest!: fetchCommitmentView_shape intro: exI [of _ "descriptors lc"] sameShape_refl)
  with assms(1) show ?thesis
    by (auto simp: indexInv_def intro: indexedAdds_shape)
qed

lemma ReceiveNewCommitment_indexInv:
  assumes "indexInv lc" "ReceiveNewCommitment e lc rawSig idx = Some (r, lc')"
  shows "indexInv lc'"
proof -
  from assms(2) have "\<exists>h. sameShape (descriptors lc) h
      \<and> (lc' = lc\<lparr>descriptors := h\<rparr>
         \<or> (\<exists>ch. lc' = lc\<lparr>descriptors := h, localCommitChain := ch\<rparr>))"
    unfolding ReceiveNewCommitment_def Let_def
    by (auto split: option.splits sum.splits prod.splits if_splits
        dest!: fetchCommitmentView_shape intro: exI [of _ "descriptors lc"] sameShape_refl)
  with assms(1) show ?thesis
    by (auto simp: indexInv_def intro: indexedAdds_shape)
qed

lemma RevokeCurrentCommitment_indexInv:
  assumes "indexInv lc" "RevokeCurrentCommitment e lc = Some (r, lc')"
  shows "indexInv lc'"
  using assms(2,1) unfolding RevokeCurrentCommitment_def Let_def
  by (auto simp: indexInv_def split: option.splits sum.splits)

lemma ReceiveRevocation_indexInv:
  assumes inv: "indexInv lc" and r: "ReceiveRevocation e lc revMsg = Some (r, lc')"
  shows "indexInv lc'"
proof -
  from r have "(descriptors lc' = descriptors lc \<and> nextAddr lc' = nextAddr lc
        \<and> ourLogIndex lc' = ourLogIndex lc \<and> theirLogIndex lc' = theirLogIndex lc)
     \<or> (sameShape (descriptors lc) (descriptors lc') \<and> nextAddr lc' = nextAddr lc
        \<and> ourLogIndex lc' \<subseteq>\<^sub>m ourLogIndex lc \<and> theirLogIndex lc' \<subseteq>\<^sub>m theirLogIndex lc)"
    unfolding ReceiveRevocation_def Let_def
    by (auto split: if_splits sum.splits list.splits option.splits prod.splits
        dest!: compactLogs_le forwardScan_shape)
  with inv show ?thesis
    unfolding indexInv_def
    by (elim disjE conjE) (simp, simp add: indexedAdds_shape [OF indexedAdds_le])
qed

lemma AddHTLC_indexInv:
  assumes "indexInv lc" "AddHTLC lc htlc = Some (r, lc')"
  shows "indexInv lc'"
proof -
  from assms(2) obtain rhash where
    l: "descriptors lc' = (descriptors lc)
          (nextAddr lc := newDescriptor Add rhash (Expiry htlc) (ReqAmount htlc) (ourLogCounter lc) 0)"
      "nextAddr lc' = Suc (nextAddr lc)"
      "ourLogIndex lc' = (ourLogIndex lc)(ourLogCounter lc \<mapsto> nextAddr lc)"
      "theirLogIndex lc' = theirLogIndex lc"
    unfolding AddHTLC_def Let_def
    by (auto split: list.splits simp: newDescriptor_def)
  let ?pd = "newDescriptor Add rhash (Expiry htlc) (ReqAmount htlc) (ourLogCounter lc) 0"
  have pd: "EntryType ?pd = Add" and ix: "Index ?pd = ourLogCounter lc"
    by (simp_all add: newDescriptor_def)
  from assms(1) have
    "indexedAdds ((descriptors lc)(nextAddr lc := ?pd)) (Suc (nextAddr lc))
       ((ourLogIndex lc)(Index ?pd \<mapsto> nextAddr lc))"
    "indexedAdds ((descriptors lc)(nextAddr lc := ?pd)) (Suc (nextAddr lc)) (theirLogIndex lc)"
    unfolding indexInv_def by (blast intro: indexedAdds_insert [OF _ pd] indexedAdds_fresh)+
  then show ?thesis
    unfolding indexInv_def l ix by simp
qed

lemma ReceiveHTLC_indexInv:
  assumes "indexInv lc" "ReceiveHTLC lc htlc = Some (r, lc')"
  shows "indexInv lc'"
proof -
  from assms(2) obtain rhash where
    l: "descriptors lc' = (descriptors lc)
          (nextAddr lc := newDescriptor Add rhash (Expiry htlc) (ReqAmount htlc) (theirLogCounter lc) 0)"
      "nextAddr lc' = Suc (nextAddr lc)"
      "theirLogIndex lc' = (theirLogIndex lc)(theirLogCounter lc \<mapsto> nextAddr lc)"
      "ourLogIndex lc' = ourLogIndex lc"
    unfolding ReceiveHTLC_def Let_def
    by (auto split: list.splits simp: newDescriptor_def)
  let ?pd = "newDescriptor Add rhash (Expiry htlc) (ReqAmount htlc) (theirLogCounter lc) 0"
  have pd: "EntryType ?pd = Add" and ix: "Index ?pd = theirLogCounter lc"
    by (simp_all add: newDescriptor_def)
  from assms(1) have
    "indexedAdds ((descriptors lc)(nextAddr lc := ?pd)) (Suc (nextAddr lc))
       ((theirLogIndex lc)(Index ?pd \<mapsto> nextAddr lc))"
    "indexedAdds ((descriptors lc)(nextAddr lc := ?pd)) (Suc (nextAddr lc)) (ourLogIndex lc)"
    unfolding indexInv_def by (blast intro: indexedAdds_insert [OF _ pd] indexedAdds_fresh)+
  then show ?thesis
    unfolding indexInv_def l ix by simp
qed

lemma SettleHTLC_indexInv:
  assumes "indexInv lc"
  shows "indexInv (snd (SettleHTLC e lc preimage))"
proof (cases "settleScan (descriptors lc) (sha256 e preimage) (theirUpdateLog lc)")
  case None
  with assms show ?thesis by (simp add: SettleHTLC_def)
next
  case (Some t)
  have "sameShape (descriptors lc) ((descriptors lc)(t := (descriptors lc t)\<lparr>settled := True\<rparr>))"
    by (intro sameShape_upd) simp_all
  with assms have "indexedAdds ((descriptors lc)(t := (descriptors lc t)\<lparr>settled := True\<rparr>))
        (nextAddr lc) (ourLogIndex lc)"
    "indexedAdds ((descriptors lc)(t := (descriptors lc t)\<lparr>settled := True\<rparr>))
        (nextAddr lc) (theirLogIndex lc)"
    by (auto simp: indexInv_def intro: indexedAdds_shape)
  with Some show ?thesis
    by (simp add: SettleHTLC_def Let_def indexInv_def indexedAdds_fresh)
qed

lemma ReceiveHTLCSettle_indexInv:
  assumes "indexInv lc"
  shows "indexInv (snd (ReceiveHTLCSettle e lc preimage logIndex))"
  using assms unfolding ReceiveHTLCSettle_def Let_def indexInv_def
  by (auto split: option.splits intro!: indexedAdds_fresh)

lemma exec_indexInv:
  assumes "indexInv lc" "exec e c lc = Some lc'"
  shows "indexInv lc'"
proof (cases c)
  case CallSignNextCommitment
  with assms(2) obtain r where "SignNextCommitment e lc = Some (r, lc')" by auto
  with assms(1) show ?thesis by (rule SignNextCommitment_indexInv)
next
  case (CallReceiveNewCommitment rawSig idx)
  with assms(2) obtain r where "ReceiveNewCommitment e lc rawSig idx = Some (r, lc')" by auto
  with assms(1) show ?thesis by (rule ReceiveNewCommitment_indexInv)
next
  case CallRevokeCurrentCommitment
  with assms(2) obtain r where "RevokeCurrentCommitment e lc = Some (r, lc')" by auto
  with assms(1) show ?thesis by (rule RevokeCurrentCommitment_indexInv)
next
  case (CallReceiveRevocation m)
  with assms(2) obtain r where "ReceiveRevocation e lc m = Some (r, lc')" by auto
  with assms(1) show ?thesis by (rule ReceiveRevocation_indexInv)
next
  case CallExtendRevocationWindow
  with assms show ?thesis
    by (auto simp: ExtendRevocationWindow_def Let_def indexInv_def split: sum.splits)
next
  case (CallAddHTLC htlc)
  with assms(2) obtain r where "AddHTLC lc htlc = Some (r, lc')" by auto
  with assms(1) show ?thesis by (rule AddHTLC_indexInv)
next
  case (CallReceiveHTLC htlc)
  with assms(2) obtain r where "ReceiveHTLC lc htlc = Some (r, lc')" by auto
  with assms(1) show ?thesis by (rule ReceiveHTLC_indexInv)
next
  case (CallSettleHTLC preimage)
  with assms(2) have "lc' = snd (SettleHTLC e lc preimage)" by simp
  with assms(1) show ?thesis by (simp add: SettleHTLC_indexInv)
next
  case (CallReceiveHTLCSettle preimage idx)
  with assms(2) have "lc' = snd (ReceiveHTLCSettle e lc preimage idx)" by simp
  with assms(1) show ?thesis by (simp add: ReceiveHTLCSettle_indexInv)
qed

lemma run_indexInv:
  assumes "indexInv lc" "run e calls lc = Some lc'"
  shows "indexInv lc'"
  using assms
proof (induction calls arbitrary: lc)
  case Nil
  then show ?case by simp
next
  case (Cons c calls)
  then show ?case by (auto split: option.splits dest: exec_indexInv)
qed

lemma NewLightningChannel_indexInv:
  assumes "NewLightningChannel e state = Inr lc"
  shows "indexInv lc"
  using assms
  by (auto simp: NewLightningChannel_def Let_def indexInv_def indexedAdds_def split: sum.splits)

text \<open>
  In every channel reached from a freshly constructed one, the index maps hold Add
  entries only, each under its own \<open>Index\<close>: the conditions on the index maps under which
  log compaction is described above.
\<close>

lemma reachable_index_maps:
  assumes "NewLightningChannel e state = Inr lc0" and "run e calls lc0 = Some lc"
  shows "indexToAdds (descriptors lc) (ourLogIndex lc)
       \<and> indexToAdds (descriptors lc) (theirLogIndex lc)
       \<and> keyed (descriptors lc) (ourLogIndex lc)
       \<and> keyed (descriptors lc) (theirLogIndex lc)"
  using run_indexInv [OF NewLightningChannel_indexInv [OF assms(1)] assms(2)]
  by (simp add: indexInv_def indexedAdds_def indexToAdds_def keyed_def)

text \<open>
  Likewise the entries of their log were handed out by the allocator, which is what the
  contract of \<open>SettleHTLC\<close> assumes.
\<close>

lemma compactLogs_logs:
  assumes "compactLogs lc lt rt = Some lc'"
  shows "set (ourUpdateLog lc') \<subseteq> set (ourUpdateLog lc)
       \<and> set (theirUpdateLog lc') \<subseteq> set (theirUpdateLog lc)
       \<and> nextAddr lc' = nextAddr lc"
  using assms unfolding compactLogs_def
  by (auto split: option.splits prod.splits dest!: compactLog_result)

lemma exec_logsAllocated:
  assumes "logsAllocated lc" "exec e c lc = Some lc'"
  shows "logsAllocated lc'"
proof (cases c)
  case CallSignNextCommitment
  with assms(2) obtain r where "SignNextCommitment e lc = Some (r, lc')" by auto
  then have "ourUpdateLog lc' = ourUpdateLog lc \<and> theirUpdateLog lc' = theirUpdateLog lc
      \<and> nextAddr lc' = nextAddr lc"
    unfolding SignNextCommitment_def Let_def
    by (auto split: list.splits option.splits sum.splits prod.splits if_splits
        dest!: fetchCommitmentView_state)
  with assms(1) show ?thesis by (simp add: logsAllocated_def)
next
  case (CallReceiveNewCommitment rawSig idx)
  with assms(2) obtain r where "ReceiveNewCommitment e lc rawSig idx = Some (r, lc')" by auto
  then have "ourUpdateLog lc' = ourUpdateLog lc \<and> theirUpdateLog lc' = theirUpdateLog lc
      \<and> nextAddr lc' = nextAddr lc"
    unfolding ReceiveNewCommitment_def Let_def
    by (auto split: option.splits sum.splits prod.splits if_splits
        dest!: fetchCommitmentView_state)
  with assms(1) show ?thesis by (simp add: logsAllocated_def)
next
  case CallRevokeCurrentCommitment
  with assms(2) obtain r where "RevokeCurrentCommitment e lc = Some (r, lc')" by auto
  with assms(1) show ?thesis
    unfolding RevokeCurrentCommitment_def Let_def
    by (auto simp: logsAllocated_def split: option.splits sum.splits)
next
  case (CallReceiveRevocation m)
  with assms(2) obtain r where "ReceiveRevocation e lc m = Some (r, lc')" by auto
  then have "set (ourUpdateLog lc') \<subseteq> set (ourUpdateLog lc)
      \<and> set (theirUpdateLog lc') \<subseteq> set (theirUpdateLog lc) \<and> nextAddr lc' = nextAddr lc"
    unfolding ReceiveRevocation_def Let_def
    by (auto split: if_splits sum.splits list.splits option.splits prod.splits
        dest!: compactLogs_logs)
  with assms(1) show ?thesis by (auto simp: logsAllocated_def)
next
  case CallExtendRevocationWindow
  with assms show ?thesis
    by (auto simp: ExtendRevocationWindow_def Let_def logsAllocated_def split: sum.splits)
next
  case (CallAddHTLC htlc)
  with assms show ?thesis
    by (auto simp: AddHTLC_def Let_def logsAllocated_def less_Suc_eq split: list.splits)
next
  case (CallReceiveHTLC htlc)
  with assms show ?thesis
    by (auto simp: ReceiveHTLC_def Let_def logsAllocated_def less_Suc_eq split: list.splits)
next
  case (CallSettleHTLC preimage)
  with assms show ?thesis
    by (auto simp: SettleHTLC_def Let_def logsAllocated_def less_Suc_eq split: option.splits)
next
  case (CallReceiveHTLCSettle preimage idx)
  with assms show ?thesis
    by (auto simp: ReceiveHTLCSettle_def Let_def logsAllocated_def less_Suc_eq
        split: option.splits if_splits)
qed

lemma run_logsAllocated:
  assumes "logsAllocated lc" "run e calls lc = Some lc'"
  shows "logsAllocated lc'"
  using assms
proof (induction calls arbitrary: lc)
  case Nil
  then show ?case by simp
next
  case (Cons c calls)
  then show ?case by (auto split: option.splits dest: exec_logsAllocated)
qed

lemma reachable_logs_allocated:
  assumes "NewLightningChannel e state = Inr lc0" and "run e calls lc0 = Some lc"
  shows "\<forall>a \<in> set (theirUpdateLog lc). a < nextAddr lc"
proof -
  from assms(1) have "logsAllocated lc0"
    by (auto simp: NewLightningChannel_def Let_def logsAllocated_def split: sum.splits)
  from run_logsAllocated [OF this assms(2)] show ?thesis
    by (simp add: logsAllocated_def)
qed

end
